(* ===== verification/Prelude.thy ===== *)
theory Prelude
  imports Main "HOL-Library.Code_Target_Nat" "HOL-Library.Sublist"
begin

text \<open>
  Shared vocabulary of the development: names for the byte values the C sources
  test, the type synonyms of the model, the collections of facts the component
  proofs draw on, and generic lemmas on lists and options.

  A C string (NUL-terminated \<open>char *\<close>) is the list of its bytes before the
  terminator; a byte buffer is the list of all its bytes.  Both are
  \<^typ>\<open>char list\<close>; \<open>nonul\<close> says that a list is a C string.  A pointer
  that may be NULL is an \<open>option\<close>.  An output buffer is described by its
  capacity, \<open>None\<close> standing for a NULL destination.
\<close>

section \<open>Collections of facts\<close>

named_theorems nonul_intros "no NUL byte is produced"
named_theorems len_bounds "results that fit the buffer they are written to"
named_theorems conn_simps "effect of the socket operations on a healthy connection"
named_theorems store_frame "what a store operation leaves unchanged"

section \<open>Types and byte values\<close>

type_synonym bytes = "char list"
type_synonym cstr = "char list"
type_synonym outbuf = "nat option"

abbreviation NUL :: char where "NUL \<equiv> CHR 0x00"
abbreviation TAB :: char where "TAB \<equiv> CHR 0x09"
abbreviation LF :: char where "LF \<equiv> CHR 0x0A"
abbreviation VTAB :: char where "VTAB \<equiv> CHR 0x0B"
abbreviation FF :: char where "FF \<equiv> CHR 0x0C"
abbreviation CR :: char where "CR \<equiv> CHR 0x0D"
abbreviation ESC :: char where "ESC \<equiv> CHR 0x1B"
abbreviation DQ :: char where "DQ \<equiv> CHR 0x22"
abbreviation BSLASH :: char where "BSLASH \<equiv> CHR 0x5C"

text \<open>The unsigned value of a byte, \<open>(unsigned char)c\<close>.\<close>

abbreviation uchar :: "char \<Rightarrow> nat" where "uchar c \<equiv> of_char c"

definition nonul :: "char list \<Rightarrow> bool" where
  "nonul s \<longleftrightarrow> NUL \<notin> set s"

text \<open>Reading a NUL-terminated string out of a byte buffer.\<close>

definition cstr_of :: "bytes \<Rightarrow> cstr" where
  "cstr_of bs = takeWhile (\<lambda>c. c \<noteq> NUL) bs"

section \<open>C strings\<close>

lemma nonul_Nil [simp, nonul_intros]: "nonul []"
  by (simp add: nonul_def)

lemma nonul_Cons [simp]: "nonul (c # s) \<longleftrightarrow> c \<noteq> NUL \<and> nonul s"
  by (auto simp: nonul_def)

lemma nonul_append [simp]: "nonul (s @ t) \<longleftrightarrow> nonul s \<and> nonul t"
  by (auto simp: nonul_def)

lemma nonul_take [nonul_intros]: "nonul s \<Longrightarrow> nonul (take n s)"
  by (auto simp: nonul_def dest: in_set_takeD)

lemma nonul_drop [nonul_intros]: "nonul s \<Longrightarrow> nonul (drop n s)"
  by (auto simp: nonul_def dest: in_set_dropD)

lemma nonul_takeWhile [nonul_intros]: "nonul s \<Longrightarrow> nonul (takeWhile P s)"
  by (auto simp: nonul_def dest: set_takeWhileD)

lemma nonul_dropWhile [nonul_intros]: "nonul s \<Longrightarrow> nonul (dropWhile P s)"
  by (auto simp: nonul_def dest: set_dropWhileD)

lemma nonul_cstr_of [simp, nonul_intros]: "nonul (cstr_of bs)"
  by (auto simp: nonul_def cstr_of_def dest: set_takeWhileD)

lemma cstr_of_nonul [simp]: "nonul s \<Longrightarrow> cstr_of s = s"
  by (auto simp: nonul_def cstr_of_def takeWhile_eq_all_conv)

lemma cstr_of_terminated [simp]: "nonul s \<Longrightarrow> cstr_of (s @ NUL # t) = s"
  by (induction s) (auto simp: cstr_of_def)

lemma length_cstr_of: "length (cstr_of bs) \<le> length bs"
  by (simp add: cstr_of_def length_takeWhile_le)

section \<open>Lists\<close>

lemma take_length_takeWhile: "take (length (takeWhile P xs)) xs = takeWhile P xs"
  by (metis takeWhile_eq_take)

lemma take_length_eq_prefix: "take (length p) s = p \<longleftrightarrow> prefix p s"
  by (auto simp: prefix_def) (metis append_take_drop_id)

lemma prefix_take_iff: "prefix p (take n s) \<longleftrightarrow> prefix p s \<and> length p \<le> n"
proof
  assume a: "prefix p (take n s)"
  then have "length p \<le> length (take n s)" by (rule prefix_length_le)
  with a show "prefix p s \<and> length p \<le> n"
    using prefix_order.trans take_is_prefix by fastforce
next
  assume "prefix p s \<and> length p \<le> n"
  then show "prefix p (take n s)" by (auto simp: prefix_def)
qed

lemma dropWhile_Cons_shorter: "dropWhile P xs = y # ys \<Longrightarrow> length ys < length xs"
  using length_dropWhile_le [of P xs] by simp

end
