(* ===== verification/Clib.thy ===== *)
theory Clib
  imports Prelude
begin

text \<open>
  The part of the C standard library that the server calls, as functions on
  \<^typ>\<open>char list\<close>: \<open>string.h\<close> (\<open>strcmp\<close>, \<open>strncmp\<close>, \<open>strchr\<close>,
  \<open>memchr\<close>, \<open>strstr\<close>, \<open>strrchr\<close>, \<open>strtok_r\<close>), \<open>ctype.h\<close> in the
  "C" locale (the program never calls \<open>setlocale\<close>), \<open>strtol\<close> base 10 with
  its saturation and end pointer, the bounded \<open>%Ns\<close> conversions of
  \<open>sscanf\<close>, and \<open>snprintf\<close> with its truncation and return value.  A pointer
  into a string is the suffix it points to.
\<close>

section \<open>Characters\<close>

definition isspace :: "char \<Rightarrow> bool" where
  "isspace c \<longleftrightarrow> c = CHR '' '' \<or> c = TAB \<or> c = LF \<or> c = VTAB \<or> c = FF \<or> c = CR"

definition isdigit :: "char \<Rightarrow> bool" where
  "isdigit c \<longleftrightarrow> 48 \<le> uchar c \<and> uchar c \<le> 57"

definition isupper :: "char \<Rightarrow> bool" where
  "isupper c \<longleftrightarrow> 65 \<le> uchar c \<and> uchar c \<le> 90"

definition islower :: "char \<Rightarrow> bool" where
  "islower c \<longleftrightarrow> 97 \<le> uchar c \<and> uchar c \<le> 122"

definition isalpha :: "char \<Rightarrow> bool" where
  "isalpha c \<longleftrightarrow> isupper c \<or> islower c"

definition tolower :: "char \<Rightarrow> char" where
  "tolower c = (if isupper c then char_of (uchar c + 32) else c)"

section \<open>String search and comparison\<close>

definition strncmp_eq :: "cstr \<Rightarrow> cstr \<Rightarrow> nat \<Rightarrow> bool" where
  "strncmp_eq s t n \<longleftrightarrow> take n s = take n t"

definition strchr :: "cstr \<Rightarrow> char \<Rightarrow> cstr option" where
  "strchr s c = (case dropWhile (\<lambda>x. x \<noteq> c) s of [] \<Rightarrow> None | t \<Rightarrow> Some t)"

definition memchr :: "bytes \<Rightarrow> char \<Rightarrow> nat \<Rightarrow> bytes option" where
  "memchr s c n = strchr (take n s) c"

fun strstr :: "cstr \<Rightarrow> cstr \<Rightarrow> cstr option" where
  "strstr [] needle = (if needle = [] then Some [] else None)"
| "strstr (c # s) needle =
     (if take (length needle) (c # s) = needle then Some (c # s) else strstr s needle)"

definition strtok_r :: "cstr \<Rightarrow> char \<Rightarrow> (cstr \<times> cstr) option" where
  "strtok_r s d =
     (case dropWhile (\<lambda>c. c = d) s of
        [] \<Rightarrow> None
      | t \<Rightarrow> Some (takeWhile (\<lambda>c. c \<noteq> d) t, drop 1 (dropWhile (\<lambda>c. c \<noteq> d) t)))"

section \<open>Number conversion\<close>

abbreviation (input) LONG_MAX :: int where "LONG_MAX \<equiv> 9223372036854775807"
abbreviation (input) LONG_MIN :: int where "LONG_MIN \<equiv> -9223372036854775808"

definition digit_val :: "char \<Rightarrow> nat" where
  "digit_val c = uchar c - 48"

definition digits_val :: "cstr \<Rightarrow> nat" where
  "digits_val = foldl (\<lambda>a c. 10 * a + digit_val c) 0"

definition strtol_sign :: "cstr \<Rightarrow> bool \<times> cstr" where
  "strtol_sign t =
     (case t of
        [] \<Rightarrow> (False, [])
      | c # r \<Rightarrow> if c = CHR ''-'' then (True, r)
                 else if c = CHR ''+'' then (False, r) else (False, t))"

text \<open>\<open>strtol(s, &end, 10)\<close>: the value, the end pointer, and whether
  \<open>errno\<close> was set (\<open>ERANGE\<close>).\<close>

definition strtol :: "cstr \<Rightarrow> int \<times> cstr \<times> bool" where
  "strtol s =
     (case strtol_sign (dropWhile isspace s) of (neg, u) \<Rightarrow>
       if takeWhile isdigit u = [] then (0, s, False)
       else
         let n = int (digits_val (takeWhile isdigit u));
             v = (if neg then - n else n);
             rest = dropWhile isdigit u
         in if v > LONG_MAX then (LONG_MAX, rest, True)
            else if v < LONG_MIN then (LONG_MIN, rest, True)
            else (v, rest, False))"

text \<open>\<open>%d\<close>, \<open>%ld\<close>, \<open>%lu\<close> and \<open>%zu\<close>.\<close>

definition digit_chr :: "nat \<Rightarrow> char" where
  "digit_chr d = char_of (48 + d)"

fun show_nat :: "nat \<Rightarrow> cstr" where
  "show_nat n = (if n < 10 then [digit_chr n] else show_nat (n div 10) @ [digit_chr (n mod 10)])"

declare show_nat.simps [simp del]

definition show_int :: "int \<Rightarrow> cstr" where
  "show_int i = (if i < 0 then CHR ''-'' # show_nat (nat (- i)) else show_nat (nat i))"

section \<open>Formatted input and output\<close>

text \<open>One \<open>%Ns\<close> conversion: skip white space, then at most \<open>N\<close>
  non-space characters; it fails on an empty match.\<close>

definition scan_word :: "nat \<Rightarrow> cstr \<Rightarrow> (cstr \<times> cstr) option" where
  "scan_word n s =
     (let t = dropWhile isspace s; w = take n (takeWhile (\<lambda>c. \<not> isspace c) t)
      in if w = [] then None else Some (w, drop (length w) t))"

text \<open>\<open>snprintf(buf, cap, ...)\<close> with formatted text \<open>s\<close>: the buffer keeps
  the first \<open>cap - 1\<close> bytes, and the caller sees the untruncated length.\<close>

definition snprintf_buf :: "nat \<Rightarrow> cstr \<Rightarrow> cstr" where
  "snprintf_buf cap s = take (cap - 1) s"

definition snprintf_fits :: "nat \<Rightarrow> cstr \<Rightarrow> bool" where
  "snprintf_fits cap s \<longleftrightarrow> length s < cap"

text \<open>\<open>%-Ns\<close> and \<open>%Nd\<close>.\<close>

definition ljust :: "nat \<Rightarrow> cstr \<Rightarrow> cstr" where
  "ljust n t = t @ replicate (n - length t) CHR '' ''"

definition rjust :: "nat \<Rightarrow> cstr \<Rightarrow> cstr" where
  "rjust n t = replicate (n - length t) CHR '' '' @ t"

section \<open>Facts\<close>

lemma uchar_less [simp]: "uchar c < 256"
  using of_char_mod_256 [of c, where ?'a = nat] by (metis mod_less_divisor zero_less_numeral)

lemma uchar_inj: "uchar c = uchar d \<Longrightarrow> c = d"
  by (metis char_of_char)

lemma uchar_char_of [simp]: "n < 256 \<Longrightarrow> uchar (char_of n) = n"
  by simp

lemma tolower_NUL [simp]: "tolower c = NUL \<longleftrightarrow> c = NUL"
proof
  assume a: "tolower c = NUL"
  show "c = NUL"
  proof (cases "isupper c")
    case True
    then have "uchar (tolower c) = uchar c + 32"
      by (simp add: tolower_def isupper_def)
    moreover have "uchar NUL = 0" by simp
    ultimately show ?thesis using a by simp
  next
    case False
    with a show ?thesis by (simp add: tolower_def)
  qed
qed (simp add: tolower_def isupper_def)

lemma nonul_map_tolower [simp]: "nonul (map tolower s) = nonul s"
  by (induction s) auto

lemma tolower_idem [simp]: "tolower (tolower c) = tolower c"
  by (simp add: tolower_def isupper_def)

lemma strchr_simps [simp]:
  "strchr [] c = None"
  "strchr (x # s) c = (if x = c then Some (x # s) else strchr s c)"
  by (simp_all add: strchr_def)

lemma strchr_None: "strchr s c = None \<longleftrightarrow> c \<notin> set s"
  by (induction s) auto

lemma strchr_Some:
  "strchr s c = Some t \<longleftrightarrow> (\<exists>u t'. s = u @ c # t' \<and> c \<notin> set u \<and> t = c # t')"
proof (induction s)
  case (Cons x s)
  show ?case
  proof (cases "x = c")
    case True
    then show ?thesis by (fastforce simp: Cons_eq_append_conv)
  next
    case False
    then show ?thesis using Cons by (fastforce simp: Cons_eq_append_conv)
  qed
qed simp

lemma strchr_shorter: "Some t = strchr s c \<Longrightarrow> length t - Suc 0 < length s"
  using strchr_Some [of s c t] by auto

lemma strchr_append [simp]: "c \<notin> set u \<Longrightarrow> strchr (u @ s) c = strchr s c"
  by (induction u) auto

lemma strncmp_eq_prefix: "strncmp_eq s p (length p) \<longleftrightarrow> prefix p s"
  by (simp add: strncmp_eq_def take_length_eq_prefix)

lemma strstr_iff_sublist: "strstr s n \<noteq> None \<longleftrightarrow> sublist n s"
proof (induction s)
  case (Cons c s)
  with take_length_eq_prefix [of n "c # s"] show ?case by (auto simp: sublist_Cons_right)
qed simp

lemma strtok_r_shorter:
  "strtok_r s d = Some (tok, rest) \<Longrightarrow> length rest < length s"
  using length_dropWhile_le [of "\<lambda>c. c = d" s]
    length_dropWhile_le [of "\<lambda>c. c \<noteq> d" "tl (dropWhile (\<lambda>c. c = d) s)"]
  by (auto simp: strtok_r_def split: list.splits if_splits)

section \<open>Printing and reading numbers\<close>

lemma isdigit_digit_chr [simp]: "d < 10 \<Longrightarrow> isdigit (digit_chr d)"
  by (simp add: isdigit_def digit_chr_def)

lemma digit_val_digit_chr [simp]: "d < 10 \<Longrightarrow> digit_val (digit_chr d) = d"
  by (simp add: digit_val_def digit_chr_def)

lemma isdigit_not_space: "isdigit c \<Longrightarrow> \<not> isspace c"
  by (auto simp: isdigit_def isspace_def)

lemma isdigit_not_sign: "isdigit c \<Longrightarrow> c \<noteq> CHR ''-'' \<and> c \<noteq> CHR ''+''"
  by (auto simp: isdigit_def)

lemma isdigit_not_NUL: "isdigit c \<Longrightarrow> c \<noteq> NUL"
  by (auto simp: isdigit_def)

lemma digits_val_snoc: "digits_val (s @ [c]) = 10 * digits_val s + digit_val c"
  by (simp add: digits_val_def)

lemma show_nat_nonempty [simp]: "show_nat n \<noteq> []"
  by (subst show_nat.simps) simp

lemma show_nat_digits: "c \<in> set (show_nat n) \<Longrightarrow> isdigit c"
proof (induction n rule: show_nat.induct)
  case (1 n)
  then show ?case by (subst (asm) show_nat.simps) (auto split: if_splits)
qed

lemma digits_val_show_nat [simp]: "digits_val (show_nat n) = n"
proof (induction n rule: show_nat.induct)
  case (1 n)
  show ?case
  proof (cases "n < 10")
    case True
    then show ?thesis by (simp add: show_nat.simps digits_val_def)
  next
    case False
    with 1 show ?thesis by (simp add: show_nat.simps [of n] digits_val_snoc)
  qed
qed

lemma nonul_show_nat [simp]: "nonul (show_nat n)"
  using show_nat_digits isdigit_not_NUL by (auto simp: nonul_def)

lemma nonul_show_int [simp]: "nonul (show_int i)"
  by (simp add: show_int_def)

lemma length_show_nat_less: "0 < k \<Longrightarrow> n < 10 ^ k \<Longrightarrow> length (show_nat n) \<le> k"
proof (induction k arbitrary: n)
  case (Suc k)
  show ?case
  proof (cases "n < 10")
    case True
    then show ?thesis by (simp add: show_nat.simps)
  next
    case False
    with Suc.prems have "n div 10 < 10 ^ k" and "0 < k"
      by (auto simp: less_mult_imp_div_less mult.commute intro: gr0I)
    with Suc.IH False show ?thesis by (simp add: show_nat.simps [of n])
  qed
qed simp

lemma takeWhile_isdigit_show_nat:
  assumes "rest = [] \<or> \<not> isdigit (hd rest)"
  shows "takeWhile isdigit (show_nat n @ rest) = show_nat n"
    and "dropWhile isdigit (show_nat n @ rest) = rest"
proof -
  have "\<forall>c \<in> set (show_nat n). isdigit c" using show_nat_digits by blast
  then show "takeWhile isdigit (show_nat n @ rest) = show_nat n"
    and "dropWhile isdigit (show_nat n @ rest) = rest"
    using assms by (cases rest; simp)+
qed

lemma strtol_sign_show_nat: "strtol_sign (show_nat n @ rest) = (False, show_nat n @ rest)"
proof -
  obtain c s where cs: "show_nat n = c # s" by (cases "show_nat n") auto
  then have "isdigit c" using show_nat_digits [of c n] by simp
  then show ?thesis using cs isdigit_not_sign [of c] by (simp add: strtol_sign_def)
qed

lemma dropWhile_isspace_show_nat: "dropWhile isspace (show_nat n @ rest) = show_nat n @ rest"
proof -
  obtain c s where cs: "show_nat n = c # s" by (cases "show_nat n") auto
  then have "isdigit c" using show_nat_digits [of c n] by simp
  then show ?thesis using cs isdigit_not_space [of c] by simp
qed

lemma strtol_show_nat:
  assumes "int n \<le> LONG_MAX" and "rest = [] \<or> \<not> isdigit (hd rest)"
  shows "strtol (show_nat n @ rest) = (int n, rest, False)"
  using assms takeWhile_isdigit_show_nat [OF assms(2), of n]
  by (simp add: strtol_def dropWhile_isspace_show_nat strtol_sign_show_nat)

lemma strtol_rest_suffix: "strtol s = (v, rest, e) \<Longrightarrow> suffix rest s"
proof -
  assume a: "strtol s = (v, rest, e)"
  obtain neg u where u: "strtol_sign (dropWhile isspace s) = (neg, u)" by fastforce
  then have "suffix u (dropWhile isspace s)"
    by (auto simp: strtol_sign_def suffix_def split: list.splits if_splits)
  then have "suffix u s" using suffix_dropWhile suffix_order.trans by blast
  then have "suffix (dropWhile isdigit u) s" using suffix_dropWhile suffix_order.trans by blast
  then show ?thesis using a u by (auto simp: strtol_def Let_def split: if_splits)
qed

lemma strtol_range: "strtol s = (v, rest, e) \<Longrightarrow> LONG_MIN \<le> v \<and> v \<le> LONG_MAX"
  by (auto simp: strtol_def Let_def split: prod.splits if_splits)

section \<open>Bounded scanning and printing\<close>

lemma scan_word_Some:
  assumes "scan_word n s = Some (w, r)"
  shows "w \<noteq> []" and "length w \<le> n" and "\<forall>c \<in> set w. \<not> isspace c" and "set w \<subseteq> set s" and "set r \<subseteq> set s"
  using assms
  by (auto simp: scan_word_def Let_def split: if_splits
      dest: in_set_takeD in_set_dropD set_takeWhileD set_dropWhileD)

lemma length_snprintf_buf [len_bounds]: "0 < cap \<Longrightarrow> length (snprintf_buf cap s) < cap"
  by (simp add: snprintf_buf_def)

lemma snprintf_buf_fits [simp]: "snprintf_fits cap s \<Longrightarrow> snprintf_buf cap s = s"
  by (simp add: snprintf_buf_def snprintf_fits_def)

lemma nonul_snprintf_buf [nonul_intros]: "nonul s \<Longrightarrow> nonul (snprintf_buf cap s)"
  by (simp add: snprintf_buf_def nonul_take)

end
