(* ===== verification/Http_Types.thy ===== *)
theory Http_Types
  imports Clib
begin

text \<open>
  The vocabulary of \<open>include/http.h\<close> and the tables at the head of
  \<open>src/http.c\<close>: the typed errors with their status codes and machine-readable
  codes, the methods, and the parsed request.
\<close>

section \<open>Limits\<close>

abbreviation (input) HTTP_MAX_HEADERS_SIZE :: nat where "HTTP_MAX_HEADERS_SIZE \<equiv> 16384"
abbreviation (input) HTTP_MAX_BODY_SIZE :: nat where "HTTP_MAX_BODY_SIZE \<equiv> 65536"
abbreviation (input) HTTP_MAX_PATH_LEN :: nat where "HTTP_MAX_PATH_LEN \<equiv> 2048"
abbreviation (input) HTTP_MAX_METHOD_LEN :: nat where "HTTP_MAX_METHOD_LEN \<equiv> 8"
abbreviation (input) HTTP_MAX_API_KEY_LEN :: nat where "HTTP_MAX_API_KEY_LEN \<equiv> 256"

section \<open>Typed errors\<close>

datatype ApiError =
    API_OK
  | API_ERR_BAD_REQUEST
  | API_ERR_MISSING_FIELD
  | API_ERR_INVALID_KEY
  | API_ERR_INVALID_ID
  | API_ERR_INVALID_QUERY
  | API_ERR_NOT_FOUND
  | API_ERR_METHOD_NOT_ALLOWED
  | API_ERR_LENGTH_REQUIRED
  | API_ERR_PAYLOAD_TOO_LARGE
  | API_ERR_UNSUPPORTED_MEDIA
  | API_ERR_UNAUTHORIZED
  | API_ERR_FORBIDDEN
  | API_ERR_NOT_IMPLEMENTED
  | API_ERR_INTERNAL

text \<open>A C enumeration object can hold any \<open>int\<close>: the enumerator with a given
  value, if there is one.\<close>

definition api_error_of_int :: "int \<Rightarrow> ApiError option" where
  "api_error_of_int i =
     (if 0 \<le> i \<and> i < 15 then
        Some ([API_OK, API_ERR_BAD_REQUEST, API_ERR_MISSING_FIELD, API_ERR_INVALID_KEY,
               API_ERR_INVALID_ID, API_ERR_INVALID_QUERY, API_ERR_NOT_FOUND,
               API_ERR_METHOD_NOT_ALLOWED, API_ERR_LENGTH_REQUIRED, API_ERR_PAYLOAD_TOO_LARGE,
               API_ERR_UNSUPPORTED_MEDIA, API_ERR_UNAUTHORIZED, API_ERR_FORBIDDEN,
               API_ERR_NOT_IMPLEMENTED, API_ERR_INTERNAL] ! nat i)
      else None)"

fun api_error_status :: "ApiError \<Rightarrow> int" where
  "api_error_status API_OK = 200"
| "api_error_status API_ERR_BAD_REQUEST = 400"
| "api_error_status API_ERR_MISSING_FIELD = 400"
| "api_error_status API_ERR_INVALID_KEY = 400"
| "api_error_status API_ERR_INVALID_ID = 400"
| "api_error_status API_ERR_INVALID_QUERY = 400"
| "api_error_status API_ERR_NOT_FOUND = 404"
| "api_error_status API_ERR_METHOD_NOT_ALLOWED = 405"
| "api_error_status API_ERR_LENGTH_REQUIRED = 411"
| "api_error_status API_ERR_PAYLOAD_TOO_LARGE = 413"
| "api_error_status API_ERR_UNSUPPORTED_MEDIA = 415"
| "api_error_status API_ERR_UNAUTHORIZED = 401"
| "api_error_status API_ERR_FORBIDDEN = 403"
| "api_error_status API_ERR_NOT_IMPLEMENTED = 501"
| "api_error_status API_ERR_INTERNAL = 500"

text \<open>The \<open>switch\<close> on a raw value: the \<open>default\<close> label.\<close>

definition api_error_status_raw :: "int \<Rightarrow> int" where
  "api_error_status_raw i = (case api_error_of_int i of Some e \<Rightarrow> api_error_status e | None \<Rightarrow> 500)"

fun api_error_code :: "ApiError \<Rightarrow> cstr" where
  "api_error_code API_OK = ''ok''"
| "api_error_code API_ERR_BAD_REQUEST = ''bad_request''"
| "api_error_code API_ERR_MISSING_FIELD = ''missing_field''"
| "api_error_code API_ERR_INVALID_KEY = ''invalid_key''"
| "api_error_code API_ERR_INVALID_ID = ''invalid_id''"
| "api_error_code API_ERR_INVALID_QUERY = ''invalid_query''"
| "api_error_code API_ERR_NOT_FOUND = ''not_found''"
| "api_error_code API_ERR_METHOD_NOT_ALLOWED = ''method_not_allowed''"
| "api_error_code API_ERR_LENGTH_REQUIRED = ''length_required''"
| "api_error_code API_ERR_PAYLOAD_TOO_LARGE = ''payload_too_large''"
| "api_error_code API_ERR_UNSUPPORTED_MEDIA = ''unsupported_media_type''"
| "api_error_code API_ERR_UNAUTHORIZED = ''unauthorized''"
| "api_error_code API_ERR_FORBIDDEN = ''forbidden''"
| "api_error_code API_ERR_NOT_IMPLEMENTED = ''not_implemented''"
| "api_error_code API_ERR_INTERNAL = ''internal_error''"

definition reason_for :: "int \<Rightarrow> cstr" where
  "reason_for status =
     (if status = 200 then ''OK''
      else if status = 201 then ''Created''
      else if status = 204 then ''No Content''
      else if status = 400 then ''Bad Request''
      else if status = 401 then ''Unauthorized''
      else if status = 403 then ''Forbidden''
      else if status = 404 then ''Not Found''
      else if status = 405 then ''Method Not Allowed''
      else if status = 411 then ''Length Required''
      else if status = 413 then ''Payload Too Large''
      else if status = 415 then ''Unsupported Media Type''
      else if status = 500 then ''Internal Server Error''
      else if status = 501 then ''Not Implemented''
      else ''Error'')"

section \<open>Methods and requests\<close>

datatype HttpMethod = HTTP_GET | HTTP_POST | HTTP_PUT | HTTP_DELETE | HTTP_UNKNOWN

definition method_from_string :: "cstr \<Rightarrow> HttpMethod" where
  "method_from_string text =
     (if text = ''GET'' then HTTP_GET
      else if text = ''POST'' then HTTP_POST
      else if text = ''PUT'' then HTTP_PUT
      else if text = ''DELETE'' then HTTP_DELETE
      else HTTP_UNKNOWN)"

text \<open>The body pointer and length: \<open>rq_body\<close> is \<open>None\<close> for NULL and
  otherwise the \<open>rq_body_len\<close> bytes it points to.\<close>

record HttpRequest =
  rq_method :: HttpMethod
  rq_method_text :: cstr
  rq_path :: cstr
  rq_query :: cstr
  rq_content_length :: int
  rq_content_type :: cstr
  rq_api_key :: cstr
  rq_has_chunked :: bool
  rq_body :: "bytes option"
  rq_body_len :: nat

text \<open>\<open>memset(out, 0, sizeof(*out))\<close>; \<open>HTTP_GET\<close> is the zero enumerator.\<close>

definition zero_request :: HttpRequest where
  "zero_request = \<lparr>rq_method = HTTP_GET, rq_method_text = [], rq_path = [], rq_query = [],
     rq_content_length = 0, rq_content_type = [], rq_api_key = [], rq_has_chunked = False,
     rq_body = None, rq_body_len = 0\<rparr>"

section \<open>Facts\<close>

lemma api_error_status_eq_200 [simp]: "api_error_status e = 200 \<longleftrightarrow> e = API_OK"
  by (cases e) auto

lemma api_error_status_range:
  "api_error_status e \<in> {200, 400, 401, 403, 404, 405, 411, 413, 415, 500, 501}"
  by (cases e) auto

lemma api_error_status_neq_2xx [simp]:
  "api_error_status e \<noteq> 201" "api_error_status e \<noteq> 204" "e \<noteq> API_OK \<Longrightarrow> 400 \<le> api_error_status e"
  by (cases e; simp)+

lemma length_api_error_code: "length (api_error_code e) \<le> 22"
  by (cases e) auto

lemma nonul_api_error_code [simp]: "nonul (api_error_code e)"
  by (cases e) auto

lemma length_reason_for: "length (reason_for s) \<le> 22"
  by (simp add: reason_for_def)

lemma nonul_reason_for [simp]: "nonul (reason_for s)"
  by (simp add: reason_for_def)

lemma api_error_of_int_range: "api_error_of_int i = None \<longleftrightarrow> i < 0 \<or> 15 \<le> i"
  by (auto simp: api_error_of_int_def)

end
