(* ===== verification/Http.thy ===== *)
theory Http
  imports Http_Types
begin

text \<open>
  The HTTP layer of \<open>src/http.c\<close>, with \<open>server_send_all\<close> of
  \<open>src/server.c\<close> that it uses: reading a request from a socket that delivers
  it in pieces, parsing the header block, looking up query parameters, and
  writing responses.

  A connected socket is a \<open>conn\<close>: what the coming calls of \<open>recv\<close> will
  deliver, what the coming calls of \<open>send\<close> will accept, and the bytes the peer
  has been sent.  The two scripts range over every behaviour the system calls
  document: short reads and writes, \<open>EINTR\<close>, other errors, end of stream.
\<close>

section \<open>Sockets\<close>

datatype recv_event = RecvData bytes | RecvIntr | RecvFail

datatype send_event = SendPart nat | SendIntr | SendFail | SendZero

text \<open>An exhausted receive script is end of stream; an exhausted send script
  accepts everything.  \<open>SendPart n\<close> accepts at most \<open>n + 1\<close> bytes.\<close>

record conn =
  cn_in :: "recv_event list"
  cn_send :: "send_event list"
  cn_out :: bytes

text \<open>\<open>recv_one\<close>: the received bytes (empty at end of stream) or \<open>None\<close> for
  an error other than \<open>EINTR\<close>, on which it calls itself again.\<close>

fun recv_one :: "nat \<Rightarrow> recv_event list \<Rightarrow> bytes option \<times> recv_event list" where
  "recv_one cap [] = (Some [], [])"
| "recv_one cap (RecvData bs # es) =
     (if length bs \<le> cap then (Some bs, es)
      else (Some (take cap bs), RecvData (drop cap bs) # es))"
| "recv_one cap (RecvIntr # es) = recv_one cap es"
| "recv_one cap (RecvFail # es) = (None, es)"

text \<open>The loop of \<open>server_send_all\<close>.\<close>

function send_loop :: "bytes \<Rightarrow> conn \<Rightarrow> bool \<times> conn" where
  "send_loop remaining c =
     (if remaining = [] then (True, c)
      else case cn_send c of
        [] \<Rightarrow> (True, c\<lparr>cn_out := cn_out c @ remaining\<rparr>)
      | SendIntr # evs \<Rightarrow> send_loop remaining (c\<lparr>cn_send := evs\<rparr>)
      | SendFail # evs \<Rightarrow> (False, c\<lparr>cn_send := evs\<rparr>)
      | SendZero # evs \<Rightarrow> (False, c\<lparr>cn_send := evs\<rparr>)
      | SendPart n # evs \<Rightarrow>
          send_loop (drop (Suc n) remaining)
            (c\<lparr>cn_send := evs, cn_out := cn_out c @ take (Suc n) remaining\<rparr>))"
  by pat_completeness auto
termination
  by (relation "measure (\<lambda>(remaining, c). length (cn_send c))") auto

declare send_loop.simps [simp del]

definition server_send_all :: "bytes option \<Rightarrow> nat \<Rightarrow> conn \<Rightarrow> bool \<times> conn" where
  "server_send_all buf len c =
     (case buf of
        None \<Rightarrow> (len = 0, c)
      | Some bs \<Rightarrow> if len = 0 then (True, c) else send_loop (take len bs) c)"

section \<open>Request line and header lines\<close>

definition to_lower_in_place :: "cstr \<Rightarrow> cstr" where
  "to_lower_in_place text = map tolower text"

definition parse_request_line :: "cstr \<Rightarrow> HttpRequest \<Rightarrow> ApiError + HttpRequest" where
  "parse_request_line line out =
     (case scan_word 7 line of
        None \<Rightarrow> Inl API_ERR_BAD_REQUEST
      | Some (meth, r1) \<Rightarrow>
     (case scan_word 2047 r1 of
        None \<Rightarrow> Inl API_ERR_BAD_REQUEST
      | Some (target, r2) \<Rightarrow>
     (case scan_word 15 r2 of
        None \<Rightarrow> Inl API_ERR_BAD_REQUEST
      | Some (version, r3) \<Rightarrow>
          if \<not> strncmp_eq version ''HTTP/1.'' 7 then Inl API_ERR_BAD_REQUEST
          else if target = [] \<or> hd target \<noteq> CHR ''/'' then Inl API_ERR_BAD_REQUEST
          else if length target \<ge> HTTP_MAX_PATH_LEN then Inl API_ERR_BAD_REQUEST
          else
            (let out1 = out\<lparr>rq_method_text := snprintf_buf HTTP_MAX_METHOD_LEN meth,
                             rq_method := method_from_string meth\<rparr>
             in case strchr target CHR ''?'' of
                  None \<Rightarrow> Inr (out1\<lparr>rq_path := snprintf_buf HTTP_MAX_PATH_LEN target, rq_query := []\<rparr>)
                | Some question \<Rightarrow>
                    (let path_len = length target - length question
                     in if path_len \<ge> HTTP_MAX_PATH_LEN then Inl API_ERR_BAD_REQUEST
                        else Inr (out1\<lparr>rq_path := take path_len target,
                                       rq_query := snprintf_buf HTTP_MAX_PATH_LEN (tl question)\<rparr>))))))"

definition is_blank :: "char \<Rightarrow> bool" where
  "is_blank c \<longleftrightarrow> c = CHR '' '' \<or> c = TAB"

definition parse_header_line :: "cstr \<Rightarrow> HttpRequest \<Rightarrow> ApiError + HttpRequest" where
  "parse_header_line line out =
     (case strchr line CHR '':'' of
        None \<Rightarrow> Inl API_ERR_BAD_REQUEST
      | Some colon \<Rightarrow>
          (let name_len = length line - length colon
           in if name_len = 0 \<or> name_len \<ge> 64 then Inl API_ERR_BAD_REQUEST
              else
                (let name = to_lower_in_place (take name_len line);
                     val = dropWhile is_blank (tl colon)
                 in if name = ''content-length'' then
                      (case strtol val of (parsed, endp, err) \<Rightarrow>
                         if err \<or> endp = val \<or> parsed < 0 \<or> parsed > int HTTP_MAX_BODY_SIZE
                         then Inl (if parsed > int HTTP_MAX_BODY_SIZE then API_ERR_PAYLOAD_TOO_LARGE
                                   else API_ERR_BAD_REQUEST)
                         else if dropWhile (\<lambda>c. is_blank c \<or> c = CR) endp \<noteq> []
                         then Inl API_ERR_BAD_REQUEST
                         else Inr (out\<lparr>rq_content_length := parsed\<rparr>))
                    else if name = ''content-type'' then
                      Inr (out\<lparr>rq_content_type := snprintf_buf 128 val\<rparr>)
                    else if name = ''x-api-key'' then
                      Inr (out\<lparr>rq_api_key := snprintf_buf HTTP_MAX_API_KEY_LEN val\<rparr>)
                    else if name = ''transfer-encoding'' then
                      (if strstr (to_lower_in_place (snprintf_buf 128 val)) ''chunked'' \<noteq> None
                       then Inr (out\<lparr>rq_has_chunked := True\<rparr>) else Inr out)
                    else Inr out)))"

section \<open>The header block\<close>

text \<open>Index of the first blank line, \<open>CR LF CR LF\<close>.\<close>

fun find_crlf2 :: "bytes \<Rightarrow> nat option" where
  "find_crlf2 [] = None"
| "find_crlf2 (c # cs) =
     (if take 4 (c # cs) = [CR, LF, CR, LF] then Some 0 else map_option Suc (find_crlf2 cs))"

definition strip_cr :: "cstr \<Rightarrow> cstr" where
  "strip_cr line = (if line \<noteq> [] \<and> last line = CR then butlast line else line)"

text \<open>The line loop of \<open>http_parse_request\<close>: the number of lines seen and the
  result.\<close>

function parse_lines :: "nat \<Rightarrow> cstr \<Rightarrow> HttpRequest \<Rightarrow> nat \<times> (ApiError + HttpRequest)" where
  "parse_lines line_no scratch out =
     (case strtok_r scratch LF of
        None \<Rightarrow> (line_no, Inr out)
      | Some (tok, rest) \<Rightarrow>
          (let line = strip_cr tok
           in case (if line_no = 0 then parse_request_line line out
                    else if line \<noteq> [] then parse_header_line line out
                    else Inr out) of
                Inl e \<Rightarrow> (Suc line_no, Inl e)
              | Inr out' \<Rightarrow> parse_lines (Suc line_no) rest out'))"
  by pat_completeness auto
termination
  by (relation "measure (\<lambda>(line_no, scratch, out). length scratch)") (auto dest: strtok_r_shorter)

declare parse_lines.simps [simp del]

text \<open>\<open>mem_ok\<close> says whether \<open>malloc\<close> of the scratch copy succeeds.  The
  scratch copy is a C string: a NUL byte in the header block ends it.\<close>

definition http_parse_request :: "bool \<Rightarrow> bytes option \<Rightarrow> ApiError + HttpRequest" where
  "http_parse_request mem_ok buf =
     (case buf of
        None \<Rightarrow> Inl API_ERR_BAD_REQUEST
      | Some bs \<Rightarrow>
          if bs = [] then Inl API_ERR_BAD_REQUEST
          else
            (case find_crlf2 bs of
               None \<Rightarrow> Inl API_ERR_BAD_REQUEST
             | Some header_len \<Rightarrow>
                 if header_len \<ge> HTTP_MAX_HEADERS_SIZE then Inl API_ERR_PAYLOAD_TOO_LARGE
                 else if \<not> mem_ok then Inl API_ERR_INTERNAL
                 else
                   (case parse_lines 0 (cstr_of (take header_len bs))
                           (zero_request\<lparr>rq_content_length := -1\<rparr>) of
                      (line_no, Inl e) \<Rightarrow> Inl e
                    | (line_no, Inr out) \<Rightarrow>
                        if line_no = 0 then Inl API_ERR_BAD_REQUEST
                        else if rq_method out = HTTP_UNKNOWN then Inl API_ERR_METHOD_NOT_ALLOWED
                        else if rq_has_chunked out then Inl API_ERR_NOT_IMPLEMENTED
                        else Inr out)))"

section \<open>Reading a request\<close>

lemma recv_one_length: "recv_one cap es = (Some got, es') \<Longrightarrow> length got \<le> cap"
  by (induction cap es rule: recv_one.induct) (auto split: if_splits)

text \<open>The header loop of \<open>http_read_request\<close>: the filled part of
  \<open>header_buf\<close> and the offset just after the blank line.\<close>

function read_headers :: "nat \<Rightarrow> bytes \<Rightarrow> recv_event list \<Rightarrow> (ApiError + bytes \<times> nat) \<times> recv_event list" where
  "read_headers header_cap buf es =
     (if length buf + 1 < header_cap then
        (case recv_one (header_cap - 1 - length buf) es of
           (None, es') \<Rightarrow> (Inl API_ERR_BAD_REQUEST, es')
         | (Some got, es') \<Rightarrow>
             if got = [] then (Inl API_ERR_BAD_REQUEST, es')
             else
               (case find_crlf2 (buf @ got) of
                  Some i \<Rightarrow> (Inr (buf @ got, i + 4), es')
                | None \<Rightarrow>
                    if length (buf @ got) \<ge> HTTP_MAX_HEADERS_SIZE then (Inl API_ERR_PAYLOAD_TOO_LARGE, es')
                    else read_headers header_cap (buf @ got) es'))
      else (Inl API_ERR_BAD_REQUEST, es))"
  by pat_completeness auto
termination
  by (relation "measure (\<lambda>(header_cap, buf, es). header_cap - length buf)")
    (auto simp: neq_Nil_conv)

declare read_headers.simps [simp del]

text \<open>The body loop.\<close>

function read_body :: "nat \<Rightarrow> bytes \<Rightarrow> recv_event list \<Rightarrow> (ApiError + bytes) \<times> recv_event list" where
  "read_body need have es =
     (if length have < need then
        (case recv_one (need - length have) es of
           (None, es') \<Rightarrow> (Inl API_ERR_BAD_REQUEST, es')
         | (Some got, es') \<Rightarrow>
             if got = [] then (Inl API_ERR_BAD_REQUEST, es')
             else read_body need (have @ got) es')
      else (Inr have, es))"
  by pat_completeness auto
termination
  by (relation "measure (\<lambda>(need, have, es). need - length have)")
    (auto simp: neq_Nil_conv)

declare read_body.simps [simp del]

definition http_read_request ::
  "bool \<Rightarrow> outbuf \<Rightarrow> outbuf \<Rightarrow> recv_event list \<Rightarrow> (ApiError + HttpRequest) \<times> recv_event list" where
  "http_read_request mem_ok header_buf body_buf es =
     (case (header_buf, body_buf) of
        (Some header_cap, Some body_cap) \<Rightarrow>
          if header_cap < 512 \<or> body_cap < 1 then (Inl API_ERR_INTERNAL, es)
          else
            (case read_headers header_cap [] es of
               (Inl e, es1) \<Rightarrow> (Inl e, es1)
             | (Inr (hbuf, header_end), es1) \<Rightarrow>
                 (case http_parse_request mem_ok (Some hbuf) of
                    Inl e \<Rightarrow> (Inl e, es1)
                  | Inr out \<Rightarrow>
                      (let already = length hbuf - header_end;
                           need = (if rq_content_length out < 0 then 0 else nat (rq_content_length out))
                       in if need > 0 \<and> need > body_cap then (Inl API_ERR_PAYLOAD_TOO_LARGE, es1)
                          else if need > HTTP_MAX_BODY_SIZE then (Inl API_ERR_PAYLOAD_TOO_LARGE, es1)
                          else if already > body_cap then (Inl API_ERR_PAYLOAD_TOO_LARGE, es1)
                          else
                            (case read_body need (take (min already need) (drop header_end hbuf)) es1 of
                               (Inl e, es2) \<Rightarrow> (Inl e, es2)
                             | (Inr have, es2) \<Rightarrow>
                                 (Inr (out\<lparr>rq_body := (if need = 0 then None else Some have),
                                           rq_body_len := length have\<rparr>), es2)))))
      | _ \<Rightarrow> (Inl API_ERR_INTERNAL, es))"

section \<open>Responses\<close>

abbreviation (input) CRLF :: cstr where "CRLF \<equiv> [CR, LF]"

text \<open>The text the two format strings of \<open>http_respond\<close> produce.\<close>

definition response_header :: "int \<Rightarrow> cstr \<Rightarrow> nat \<Rightarrow> cstr option \<Rightarrow> cstr" where
  "response_header status content_type body_len allow =
     ''HTTP/1.1 '' @ show_int status @ '' '' @ reason_for status @ CRLF @
     ''Content-Type: '' @ content_type @ CRLF @
     ''Content-Length: '' @ show_nat body_len @ CRLF @
     (case allow of None \<Rightarrow> [] | Some a \<Rightarrow> ''Allow: '' @ a @ CRLF) @
     ''Connection: close'' @ CRLF @ CRLF"

text \<open>\<open>True\<close> is the return value 0.\<close>

definition http_respond ::
  "int \<Rightarrow> cstr option \<Rightarrow> bytes option \<Rightarrow> nat \<Rightarrow> cstr option \<Rightarrow> conn \<Rightarrow> bool \<times> conn" where
  "http_respond status content_type body body_len allow c =
     (case content_type of
        None \<Rightarrow> (False, c)
      | Some ct \<Rightarrow>
          if body = None \<and> body_len \<noteq> 0 then (False, c)
          else
            (let header = response_header status ct body_len allow
             in if \<not> snprintf_fits 1024 header then (False, c)
                else
                  (case server_send_all (Some header) (length header) c of
                     (False, c1) \<Rightarrow> (False, c1)
                   | (True, c1) \<Rightarrow>
                       if body_len > 0 then server_send_all body body_len c1 else (True, c1))))"

text \<open>The loop that fills \<open>safe_detail[512]\<close> from position \<open>pos\<close>.\<close>

fun safe_detail :: "nat \<Rightarrow> cstr \<Rightarrow> cstr" where
  "safe_detail pos [] = []"
| "safe_detail pos (c # cs) =
     (if pos + 2 < 512 then
        (if c = DQ \<or> c = BSLASH then BSLASH # c # safe_detail (pos + 2) cs
         else c # safe_detail (pos + 1) cs)
      else [])"

definition error_body :: "cstr \<Rightarrow> cstr \<Rightarrow> cstr" where
  "error_body code msg =
     ''{'' @ DQ # ''error'' @ DQ # '':'' @ DQ # code @ DQ # '','' @
     DQ # ''message'' @ DQ # '':'' @ DQ # msg @ DQ # ''}''"

definition http_respond_error :: "ApiError \<Rightarrow> cstr option \<Rightarrow> conn \<Rightarrow> bool \<times> conn" where
  "http_respond_error err0 detail0 c =
     (let err = (if err0 = API_OK then API_ERR_INTERNAL else err0);
          detail = (case detail0 of None \<Rightarrow> ''error'' | Some d \<Rightarrow> d);
          status = api_error_status err;
          body = error_body (api_error_code err) (safe_detail 0 detail)
      in if \<not> snprintf_fits 1024 body then
           (let fallback = error_body ''internal_error'' ''encode overflow''
            in http_respond 500 (Some ''application/json'') (Some fallback) (length fallback) None c)
         else
           http_respond status (Some ''application/json'') (Some body) (length body)
             (if err = API_ERR_METHOD_NOT_ALLOWED then Some ''GET, POST, PUT, DELETE'' else None) c)"

section \<open>Query parameters\<close>

text \<open>The three results 0, -1 and -2.\<close>

datatype query_result = QFound cstr | QAbsent | QTruncated

function query_loop :: "cstr \<Rightarrow> nat \<Rightarrow> cstr \<Rightarrow> query_result" where
  "query_loop key out_cap cursor =
     (if cursor = [] then QAbsent
      else
        (let amp = strchr cursor CHR ''&'';
             pair_len = (case amp of None \<Rightarrow> length cursor | Some a \<Rightarrow> length cursor - length a);
             eq = memchr cursor CHR ''='' pair_len;
             name_len = (case eq of None \<Rightarrow> pair_len | Some e \<Rightarrow> pair_len - length e)
         in if name_len = length key \<and> take (length key) cursor = key then
              (let val = (case eq of None \<Rightarrow> [] | Some e \<Rightarrow> tl e)
               in if length val + 1 > out_cap then QTruncated
                  else QFound (map (\<lambda>c. if c = CHR ''+'' then CHR '' '' else c) val))
            else
              (case amp of
                 None \<Rightarrow> QAbsent
               | Some a \<Rightarrow> query_loop key out_cap (tl a))))"
  by pat_completeness auto
termination
  by (relation "measure (\<lambda>(key, out_cap, cursor). length cursor)") (auto dest: strchr_shorter)

declare query_loop.simps [simp del]

definition http_query_get :: "cstr option \<Rightarrow> cstr option \<Rightarrow> outbuf \<Rightarrow> query_result" where
  "http_query_get query key out =
     (case (query, key, out) of
        (Some q, Some k, Some out_cap) \<Rightarrow> if out_cap = 0 then QAbsent else query_loop k out_cap q
      | _ \<Rightarrow> QAbsent)"

section \<open>Sending\<close>

lemma send_loop_in: "send_loop rem c = (ok, c') \<Longrightarrow> cn_in c' = cn_in c"
proof (induction rem c arbitrary: ok c' rule: send_loop.induct)
  case (1 remaining c)
  from "1.prems" show ?case
    by (subst (asm) send_loop.simps)
      (auto split: if_splits list.splits send_event.splits dest: "1.IH" [rotated 1])
qed

text \<open>Whatever the kernel does, the peer sees a prefix of the data, and on success
  all of it exactly once.\<close>

lemma send_loop_prefix:
  "send_loop rem c = (ok, c') \<Longrightarrow>
   \<exists>p q. rem = p @ q \<and> cn_out c' = cn_out c @ p \<and> (ok \<longleftrightarrow> q = [])"
proof (induction rem c arbitrary: ok c' rule: send_loop.induct)
  case (1 rem c)
  consider (fin) "rem = []" | (all) "rem \<noteq> []" "cn_send c = []"
    | (intr) evs where "rem \<noteq> []" "cn_send c = SendIntr # evs"
    | (stop) e evs where "rem \<noteq> []" "cn_send c = e # evs" "e = SendFail \<or> e = SendZero"
    | (part) n evs where "rem \<noteq> []" "cn_send c = SendPart n # evs"
    by (cases "cn_send c"; cases "hd (cn_send c)") auto
  then show ?case
  proof cases
    case fin
    with "1.prems" show ?thesis by (subst (asm) send_loop.simps) auto
  next
    case all
    with "1.prems" show ?thesis by (subst (asm) send_loop.simps) auto
  next
    case intr
    then have "send_loop rem (c\<lparr>cn_send := evs\<rparr>) = (ok, c')"
      using "1.prems" by (subst (asm) send_loop.simps) simp
    with "1.IH"(2) [OF intr(1,2) refl] show ?thesis by simp
  next
    case stop
    with "1.prems" show ?thesis by (subst (asm) send_loop.simps) auto
  next
    case part
    then have "send_loop (drop (Suc n) rem)
        (c\<lparr>cn_send := evs, cn_out := cn_out c @ take (Suc n) rem\<rparr>) = (ok, c')"
      using "1.prems" by (subst (asm) send_loop.simps) simp
    from "1.IH"(1) [OF part(1,2) refl this] obtain p q where
      "drop (Suc n) rem = p @ q" "cn_out c' = (cn_out c @ take (Suc n) rem) @ p" "ok \<longleftrightarrow> q = []"
      by auto
    moreover from this(1) have "rem = (take (Suc n) rem @ p) @ q"
      using append_take_drop_id [of "Suc n" rem] by simp
    ultimately show ?thesis
      by (intro exI [of _ "take (Suc n) rem @ p"] exI [of _ q] conjI) simp_all
  qed
qed

lemma send_loop_healthy [conn_simps]:
  "cn_send c = [] \<Longrightarrow> send_loop rem c = (True, c\<lparr>cn_out := cn_out c @ rem\<rparr>)"
  by (subst send_loop.simps) simp

lemma server_send_all_healthy [conn_simps]:
  "cn_send c = [] \<Longrightarrow> server_send_all (Some bs) (length bs) c = (True, c\<lparr>cn_out := cn_out c @ bs\<rparr>)"
  by (simp add: server_send_all_def send_loop_healthy)

section \<open>Responses on a healthy connection\<close>

definition render_response :: "int \<Rightarrow> cstr \<Rightarrow> bytes \<Rightarrow> cstr option \<Rightarrow> bytes" where
  "render_response status ct body allow = response_header status ct (length body) allow @ body"

text \<open>The connection after a whole response was sent.\<close>

definition responded :: "int \<Rightarrow> cstr \<Rightarrow> bytes \<Rightarrow> cstr option \<Rightarrow> conn \<Rightarrow> conn" where
  "responded status ct body allow c = c\<lparr>cn_out := cn_out c @ render_response status ct body allow\<rparr>"

lemma responded_simps [simp]:
  "cn_send (responded st ct b al c) = cn_send c"
  "cn_in (responded st ct b al c) = cn_in c"
  "cn_out (responded st ct b al c) = cn_out c @ render_response st ct b al"
  by (simp_all add: responded_def)

lemma length_show_int: "0 \<le> i \<Longrightarrow> i < 1000 \<Longrightarrow> length (show_int i) \<le> 3"
  using length_show_nat_less [of 3 "nat i"] by (simp add: show_int_def nat_less_iff)

lemma response_header_fits [len_bounds]:
  assumes "0 \<le> status" "status < 1000" "length ct \<le> 64" "body_len < 10 ^ 10"
    "case allow of None \<Rightarrow> True | Some a \<Rightarrow> length a \<le> 64"
  shows "snprintf_fits 1024 (response_header status ct body_len allow)"
  using assms length_show_int [of status] length_reason_for [of status]
    length_show_nat_less [of 10 body_len]
  by (auto simp: snprintf_fits_def response_header_def split: option.splits)

lemma http_respond_healthy [conn_simps]:
  assumes "cn_send c = []" "snprintf_fits 1024 (response_header status ct (length b) allow)"
  shows "http_respond status (Some ct) (Some b) (length b) allow c = (True, responded status ct b allow c)"
    and "b = [] \<Longrightarrow> http_respond status (Some ct) None 0 allow c = (True, responded status ct b allow c)"
  using assms
  by (auto simp: http_respond_def Let_def conn_simps responded_def render_response_def)

lemma http_respond_False_NULL [simp]: "http_respond status None b n allow c = (False, c)"
  by (simp add: http_respond_def)

lemma length_safe_detail: "pos \<le> 511 \<Longrightarrow> pos + length (safe_detail pos d) \<le> 511"
proof (induction pos d rule: safe_detail.induct)
  case (2 pos c cs)
  then show ?case by (cases "pos + 2 < 512") auto
qed simp

lemma error_body_fits:
  "length code \<le> 22 \<Longrightarrow> snprintf_fits 1024 (error_body code (safe_detail 0 d))"
  using length_safe_detail [of 0 d] by (simp add: snprintf_fits_def error_body_def)

text \<open>The body and \<open>Allow\<close> header of an error response.\<close>

definition error_json :: "ApiError \<Rightarrow> cstr \<Rightarrow> bytes" where
  "error_json err detail = error_body (api_error_code err) (safe_detail 0 detail)"

definition error_allow :: "ApiError \<Rightarrow> cstr option" where
  "error_allow err = (if err = API_ERR_METHOD_NOT_ALLOWED then Some ''GET, POST, PUT, DELETE'' else None)"

lemma length_error_json: "length (error_json err d) < 1024"
  using error_body_fits [OF length_api_error_code, of err d] by (simp add: error_json_def snprintf_fits_def)

lemma http_respond_error_healthy [conn_simps]:
  assumes "cn_send c = []" "err \<noteq> API_OK"
  shows "http_respond_error err (Some d) c =
    (True, responded (api_error_status err) ''application/json'' (error_json err d) (error_allow err) c)"
proof -
  have "snprintf_fits 1024 (response_header (api_error_status err) ''application/json''
      (length (error_json err d)) (error_allow err))"
    using length_error_json [of err d]
    by (intro response_header_fits) (cases err; simp add: error_allow_def)+
  with assms error_body_fits [OF length_api_error_code, of err d] show ?thesis
    by (auto simp: http_respond_error_def Let_def conn_simps error_json_def error_allow_def)
qed

section \<open>The end of the headers\<close>

lemma find_crlf2_Cons:
  "find_crlf2 (c # s) =
     (if prefix [CR, LF, CR, LF] (c # s) then Some 0 else map_option Suc (find_crlf2 s))"
proof -
  have "length [CR, LF, CR, LF] = 4" by simp
  then have "take 4 (c # s) = [CR, LF, CR, LF] \<longleftrightarrow> prefix [CR, LF, CR, LF] (c # s)"
    by (metis take_length_eq_prefix)
  then show ?thesis by (simp only: find_crlf2.simps)
qed

declare find_crlf2.simps(2) [simp del]

lemma find_crlf2_bound: "find_crlf2 s = Some i \<Longrightarrow> i + 4 \<le> length s"
proof (induction s arbitrary: i)
  case (Cons c s)
  then show ?case
    using prefix_length_le [of "[CR, LF, CR, LF]" "c # s"]
    by (fastforce simp: find_crlf2_Cons split: if_splits)
qed simp

lemma find_crlf2_take:
  "find_crlf2 (take n s) =
     (case find_crlf2 s of None \<Rightarrow> None | Some i \<Rightarrow> if i + 4 \<le> n then Some i else None)"
proof (induction s arbitrary: n)
  case (Cons c s)
  show ?case
  proof (cases n)
    case (Suc m)
    have pre: "prefix [CR, LF, CR, LF] (take n (c # s)) \<longleftrightarrow> prefix [CR, LF, CR, LF] (c # s) \<and> 4 \<le> n"
      using prefix_take_iff [of "[CR, LF, CR, LF]" n "c # s"] by (simp add: numeral_eq_Suc)
    have small: "find_crlf2 (take m s) \<noteq> None \<Longrightarrow> 4 \<le> n"
      using find_crlf2_bound [of "take m s"] Suc by fastforce
    have "find_crlf2 (take n (c # s)) =
      (if prefix [CR, LF, CR, LF] (c # s) \<and> 4 \<le> n then Some 0 else map_option Suc (find_crlf2 (take m s)))"
      using pre Suc by (simp only: take_Suc_Cons find_crlf2_Cons)
    then show ?thesis
      using small Suc Cons.IH [of m] by (auto simp: find_crlf2_Cons split: option.splits)
  qed (simp split: option.splits)
qed simp

lemma find_crlf2_append: "find_crlf2 s = Some i \<Longrightarrow> find_crlf2 (s @ t) = Some i"
  using find_crlf2_take [of "length s" "s @ t"] by (auto split: option.splits if_splits)

lemma find_crlf2_prefix_None: "find_crlf2 (s @ t) = None \<Longrightarrow> find_crlf2 s = None"
  using find_crlf2_append by (metis not_None_eq)

section \<open>Receiving in pieces\<close>

definition clean :: "recv_event list \<Rightarrow> bool" where
  "clean es \<longleftrightarrow> RecvFail \<notin> set es \<and> RecvData [] \<notin> set es"

fun stream_of :: "recv_event list \<Rightarrow> bytes" where
  "stream_of [] = []"
| "stream_of (RecvData bs # es) = bs @ stream_of es"
| "stream_of (RecvIntr # es) = stream_of es"
| "stream_of (RecvFail # es) = stream_of es"

lemma clean_Cons [simp]:
  "clean (e # es) \<longleftrightarrow> e \<noteq> RecvFail \<and> e \<noteq> RecvData [] \<and> clean es"
  by (auto simp: clean_def)

lemma recv_one_clean:
  assumes "clean es" and "0 < cap"
  obtains got es' where "recv_one cap es = (Some got, es')" "clean es'"
    "stream_of es = got @ stream_of es'" "got = [] \<longleftrightarrow> stream_of es = []" "length got \<le> cap"
proof -
  have "\<exists>got es'. recv_one cap es = (Some got, es') \<and> clean es' \<and> stream_of es = got @ stream_of es' \<and>
      (got = [] \<longleftrightarrow> stream_of es = []) \<and> length got \<le> cap"
    using assms
  proof (induction cap es rule: recv_one.induct)
    case (2 cap bs es)
    then show ?case by (cases "length bs \<le> cap") auto
  qed auto
  then show thesis using that by blast
qed

lemma read_body_clean:
  "clean es \<Longrightarrow> length have \<le> need \<Longrightarrow>
   fst (read_body need have es) =
     (if need \<le> length have + length (stream_of es)
      then Inr (have @ take (need - length have) (stream_of es)) else Inl API_ERR_BAD_REQUEST)"
proof (induction need "have" es rule: read_body.induct)
  case (1 need "have" es)
  show ?case
  proof (cases "length have < need")
    case False
    with "1.prems" show ?thesis by (subst read_body.simps) simp
  next
    case True
    then obtain got es' where r: "recv_one (need - length have) es = (Some got, es')" "clean es'"
      "stream_of es = got @ stream_of es'" "got = [] \<longleftrightarrow> stream_of es = []" "length got \<le> need - length have"
      using recv_one_clean [OF "1.prems"(1), of "need - length have"] by auto
    show ?thesis
    proof (cases "got = []")
      case nil: True
      with True r show ?thesis by (subst read_body.simps) simp
    next
      case False
      have "fst (read_body need have es) = fst (read_body need (have @ got) es')"
        using True r False by (subst read_body.simps) simp
      also have "\<dots> = (if need \<le> length (have @ got) + length (stream_of es')
          then Inr ((have @ got) @ take (need - length (have @ got)) (stream_of es')) else Inl API_ERR_BAD_REQUEST)"
        using "1.IH" [OF True r(1) [symmetric] refl False r(2)] r(5) True by simp
      finally show ?thesis using r(3,5) by (auto simp: add.assoc)
    qed
  qed
qed

lemma read_headers_clean:
  assumes "clean es" "find_crlf2 buf = None" "length buf < header_cap" "header_cap \<le> HTTP_MAX_HEADERS_SIZE"
  shows "case find_crlf2 (take (header_cap - 1) (buf @ stream_of es)) of
      None \<Rightarrow> fst (read_headers header_cap buf es) = Inl API_ERR_BAD_REQUEST
    | Some i \<Rightarrow> \<exists>hbuf es'. read_headers header_cap buf es = (Inr (hbuf, i + 4), es') \<and> clean es' \<and>
        hbuf @ stream_of es' = buf @ stream_of es \<and> find_crlf2 hbuf = Some i \<and> length hbuf < header_cap"
  using assms
proof (induction header_cap buf es rule: read_headers.induct)
  case (1 header_cap buf es)
  show ?case
  proof (cases "length buf + 1 < header_cap")
    case False
    with "1.prems" have "take (header_cap - 1) (buf @ stream_of es) = buf" by simp
    with False "1.prems" show ?thesis by (subst read_headers.simps) simp
  next
    case True
    then obtain got es' where r: "recv_one (header_cap - 1 - length buf) es = (Some got, es')" "clean es'"
      "stream_of es = got @ stream_of es'" "got = [] \<longleftrightarrow> stream_of es = []"
      "length got \<le> header_cap - 1 - length buf"
      using recv_one_clean [OF "1.prems"(1), of "header_cap - 1 - length buf"] by auto
    show ?thesis
    proof (cases "got = []")
      case nil: True
      have "find_crlf2 (take (header_cap - 1) (buf @ stream_of es)) = None"
        using nil r(4) "1.prems"(2) by (simp add: find_crlf2_take)
      moreover have "fst (read_headers header_cap buf es) = Inl API_ERR_BAD_REQUEST"
        using True r(1) nil by (subst read_headers.simps) simp
      ultimately show ?thesis by simp
    next
      case False
      have fits: "length (buf @ got) < header_cap" using r(5) True by simp
      show ?thesis
      proof (cases "find_crlf2 (buf @ got)")
        case None
        have step: "read_headers header_cap buf es = read_headers header_cap (buf @ got) es'"
          using True r(1) False None fits "1.prems"(4) by (subst read_headers.simps) simp
        have "\<not> HTTP_MAX_HEADERS_SIZE \<le> length (buf @ got)" using fits "1.prems"(4) by simp
        from "1.IH" [OF True r(1) [symmetric] refl False None this r(2) None fits "1.prems"(4)]
        show ?thesis by (simp add: step r(3) split: option.splits)
      next
        case (Some i)
        have "i + 4 \<le> header_cap - 1" using find_crlf2_bound [OF Some] fits by simp
        then have "find_crlf2 (take (header_cap - 1) (buf @ stream_of es)) = Some i"
          using find_crlf2_append [OF Some, of "stream_of es'"] r(3)
          by (simp add: find_crlf2_take del: take_append)
        moreover have "read_headers header_cap buf es = (Inr (buf @ got, i + 4), es')"
          using True r(1) False Some by (subst read_headers.simps) simp
        ultimately show ?thesis using r(2,3) Some fits by simp
      qed
    qed
  qed
qed

section \<open>What a parsed request satisfies\<close>

text \<open>The bounds of the struct's character arrays and of the declared length.\<close>

definition fields_ok :: "HttpRequest \<Rightarrow> bool" where
  "fields_ok rq \<longleftrightarrow>
     length (rq_method_text rq) < HTTP_MAX_METHOD_LEN \<and>
     length (rq_path rq) < HTTP_MAX_PATH_LEN \<and> nonul (rq_path rq) \<and>
     length (rq_query rq) < HTTP_MAX_PATH_LEN \<and> nonul (rq_query rq) \<and>
     -1 \<le> rq_content_length rq \<and> rq_content_length rq \<le> int HTTP_MAX_BODY_SIZE \<and>
     length (rq_content_type rq) < 128 \<and> nonul (rq_content_type rq) \<and>
     length (rq_api_key rq) < HTTP_MAX_API_KEY_LEN \<and> nonul (rq_api_key rq)"

definition path_ok :: "HttpRequest \<Rightarrow> bool" where
  "path_ok rq \<longleftrightarrow> rq_path rq \<noteq> [] \<and> hd (rq_path rq) = CHR ''/'' \<and> CHR ''?'' \<notin> set (rq_path rq)"

lemma parse_request_line_ok:
  assumes "parse_request_line line out = Inr out'" and "fields_ok out" and "nonul line"
  shows "fields_ok out' \<and> path_ok out'"
proof -
  from assms(1) obtain meth r1 target r2 version r3 where
    m: "scan_word 7 line = Some (meth, r1)" and t: "scan_word 2047 r1 = Some (target, r2)"
    and v: "scan_word 15 r2 = Some (version, r3)" and slash: "hd target = CHR ''/''"
    by (auto simp: parse_request_line_def split: option.splits if_splits)
  have len: "length meth \<le> 7" "length target \<le> 2047" "target \<noteq> []"
    using scan_word_Some [OF m] scan_word_Some [OF t] by auto
  have nt: "nonul target"
    using assms(3) scan_word_Some(5) [OF m] scan_word_Some(4) [OF t] by (auto simp: nonul_def)
  show ?thesis
  proof (cases "strchr target CHR ''?''")
    case None
    then have "out' = out\<lparr>rq_method_text := snprintf_buf HTTP_MAX_METHOD_LEN meth,
        rq_method := method_from_string meth, rq_path := snprintf_buf HTTP_MAX_PATH_LEN target, rq_query := []\<rparr>"
      using assms(1) m t v by (simp add: parse_request_line_def Let_def split: if_splits)
    with assms(2) None len nt slash show ?thesis
      by (simp add: fields_ok_def path_ok_def snprintf_buf_def strchr_None)
  next
    case (Some q)
    then obtain u q' where u: "target = u @ CHR ''?'' # q'" "CHR ''?'' \<notin> set u" "q = CHR ''?'' # q'"
      by (auto simp: strchr_Some)
    moreover have "u \<noteq> [] \<and> hd u = CHR ''/''" using u slash by (cases u) auto
    moreover have "out' = out\<lparr>rq_method_text := snprintf_buf HTTP_MAX_METHOD_LEN meth,
        rq_method := method_from_string meth, rq_path := u, rq_query := snprintf_buf HTTP_MAX_PATH_LEN q'\<rparr>"
      using assms(1) m t v u Some by (simp add: parse_request_line_def Let_def split: if_splits)
    ultimately show ?thesis
      using assms(2) len nt by (simp add: fields_ok_def path_ok_def snprintf_buf_def nonul_take)
  qed
qed

lemma parse_header_line_ok:
  assumes "parse_header_line line out = Inr out'" and "fields_ok out" and "nonul line"
  shows "fields_ok out'" and "rq_path out' = rq_path out"
proof -
  from assms(1) obtain colon where c: "strchr line CHR '':'' = Some colon"
    by (auto simp: parse_header_line_def split: option.splits)
  then have "nonul (tl colon)" using assms(3) by (auto simp: strchr_Some)
  then have "nonul (dropWhile is_blank (tl colon))" by (rule nonul_dropWhile)
  then show "fields_ok out'" and "rq_path out' = rq_path out"
    using assms(1,2) c
    by (auto simp: parse_header_line_def fields_ok_def Let_def snprintf_buf_def
        intro: nonul_take split: if_splits prod.splits)
qed

lemma strtok_r_nonul:
  "strtok_r s d = Some (tok, rest) \<Longrightarrow> nonul s \<Longrightarrow> nonul tok \<and> nonul rest"
proof -
  assume a: "strtok_r s d = Some (tok, rest)" "nonul s"
  define t where "t = dropWhile (\<lambda>c. c = d) s"
  have "nonul t" using a(2) by (simp add: t_def nonul_dropWhile)
  moreover have "tok = takeWhile (\<lambda>c. c \<noteq> d) t" "rest = drop 1 (dropWhile (\<lambda>c. c \<noteq> d) t)"
    using a(1) by (auto simp: strtok_r_def t_def [symmetric] split: list.splits)
  ultimately show ?thesis by (simp add: nonul_takeWhile nonul_drop nonul_dropWhile)
qed

lemma nonul_strip_cr: "nonul s \<Longrightarrow> nonul (strip_cr s)"
  by (auto simp: strip_cr_def nonul_def dest: in_set_butlastD)

lemma parse_lines_ok:
  "parse_lines n scratch out = (n', Inr out') \<Longrightarrow> nonul scratch \<Longrightarrow> fields_ok out \<Longrightarrow>
   (0 < n \<Longrightarrow> path_ok out) \<Longrightarrow> fields_ok out' \<and> (0 < n' \<longrightarrow> path_ok out')"
proof (induction n scratch out rule: parse_lines.induct)
  case (1 n scratch out)
  show ?case
  proof (cases "strtok_r scratch LF")
    case None
    with "1.prems" show ?thesis by (subst (asm) parse_lines.simps) auto
  next
    case (Some p)
    obtain tok rest where p: "p = (tok, rest)" by fastforce
    define res where "res = (if n = 0 then parse_request_line (strip_cr tok) out
      else if strip_cr tok \<noteq> [] then parse_header_line (strip_cr tok) out else Inr out)"
    have "(case res of Inl e \<Rightarrow> (Suc n, Inl e) | Inr out1 \<Rightarrow> parse_lines (Suc n) rest out1) = (n', Inr out')"
      using "1.prems"(1) Some p by (simp add: parse_lines.simps [of n scratch out] res_def Let_def)
    then obtain out1 where o: "res = Inr out1" "parse_lines (Suc n) rest out1 = (n', Inr out')"
      by (auto split: sum.splits)
    have nn: "nonul (strip_cr tok)" "nonul rest"
      using strtok_r_nonul Some p "1.prems"(2) nonul_strip_cr by blast+
    have "fields_ok out1 \<and> path_ok out1"
      using o(1) parse_request_line_ok [OF _ "1.prems"(3) nn(1)] parse_header_line_ok [OF _ "1.prems"(3) nn(1)]
        "1.prems"(3,4)
      by (auto simp: res_def path_ok_def split: if_splits)
    then show ?thesis
      using "1.IH" [OF Some p [symmetric] refl, of out1] o nn(2) by (auto simp: res_def)
  qed
qed

lemma fields_ok_initial: "fields_ok (zero_request\<lparr>rq_content_length := -1\<rparr>)"
  by (simp add: fields_ok_def zero_request_def)

lemma http_parse_request_ok:
  assumes "http_parse_request mem_ok buf = Inr rq"
  shows "fields_ok rq" and "path_ok rq" and "rq_method rq \<noteq> HTTP_UNKNOWN" and "\<not> rq_has_chunked rq"
proof -
  from assms obtain bs i n where p: "buf = Some bs" "find_crlf2 bs = Some i"
    "parse_lines 0 (cstr_of (take i bs)) (zero_request\<lparr>rq_content_length := -1\<rparr>) = (n, Inr rq)"
    "n \<noteq> 0" "rq_method rq \<noteq> HTTP_UNKNOWN" "\<not> rq_has_chunked rq"
    by (auto simp: http_parse_request_def split: option.splits if_splits prod.splits sum.splits)
  then show "fields_ok rq" "path_ok rq" "rq_method rq \<noteq> HTTP_UNKNOWN" "\<not> rq_has_chunked rq"
    using parse_lines_ok [OF p(3)] fields_ok_initial by auto
qed

text \<open>The parser only looks at the bytes up to the first blank line.\<close>

lemma http_parse_request_header:
  assumes "find_crlf2 s = Some i"
  shows "http_parse_request mem_ok (Some (take (i + 4) s)) = http_parse_request mem_ok (Some s)"
proof -
  have "s \<noteq> []" and "take (i + 4) s \<noteq> []" using find_crlf2_bound [OF assms] by auto
  moreover have "find_crlf2 (take (i + 4) s) = Some i" using assms by (simp add: find_crlf2_take)
  moreover have "take i (take (i + 4) s) = take i s" by simp
  ultimately show ?thesis using assms unfolding http_parse_request_def by (simp only: option.case if_False)
qed

section \<open>Reference definitions\<close>

text \<open>What reading a request amounts to when the whole byte stream the peer sends
  is known in advance: no buffers, no partial reads.\<close>

definition http_read_ref :: "bool \<Rightarrow> nat \<Rightarrow> nat \<Rightarrow> bytes \<Rightarrow> ApiError + HttpRequest" where
  "http_read_ref mem_ok header_cap body_cap s =
     (case find_crlf2 (take (header_cap - 1) s) of
        None \<Rightarrow> Inl API_ERR_BAD_REQUEST
      | Some i \<Rightarrow>
          (case http_parse_request mem_ok (Some (take (i + 4) s)) of
             Inl e \<Rightarrow> Inl e
           | Inr out \<Rightarrow>
               (let need = nat (rq_content_length out); rest = drop (i + 4) s
                in if need > body_cap then Inl API_ERR_PAYLOAD_TOO_LARGE
                   else if length rest < need then Inl API_ERR_BAD_REQUEST
                   else Inr (out\<lparr>rq_body := (if need = 0 then None else Some (take need rest)),
                                   rq_body_len := need\<rparr>))))"

lemma http_read_request_ref:
  assumes "clean es" "512 \<le> header_cap" "header_cap \<le> HTTP_MAX_HEADERS_SIZE" "header_cap \<le> body_cap"
  shows "fst (http_read_request mem_ok (Some header_cap) (Some body_cap) es) =
    http_read_ref mem_ok header_cap body_cap (stream_of es)"
proof (cases "find_crlf2 (take (header_cap - 1) (stream_of es))")
  case None
  then have "fst (read_headers header_cap [] es) = Inl API_ERR_BAD_REQUEST"
    using read_headers_clean [OF assms(1), of "[]" header_cap] assms by simp
  then show ?thesis
    using None assms by (auto simp: http_read_request_def http_read_ref_def split: prod.splits)
next
  case (Some i)
  then obtain hbuf es' where h: "read_headers header_cap [] es = (Inr (hbuf, i + 4), es')" "clean es'"
    "hbuf @ stream_of es' = stream_of es" "find_crlf2 hbuf = Some i" "length hbuf < header_cap"
    using read_headers_clean [OF assms(1), of "[]" header_cap] assms by auto
  have len: "i + 4 \<le> length hbuf" using find_crlf2_bound [OF h(4)] .
  have same: "http_parse_request mem_ok (Some hbuf) = http_parse_request mem_ok (Some (take (i + 4) (stream_of es)))"
    using http_parse_request_header [OF h(4), of mem_ok] len by (simp add: h(3) [symmetric])
  have rest: "drop (i + 4) (stream_of es) = drop (i + 4) hbuf @ stream_of es'"
    using len by (simp add: h(3) [symmetric])
  show ?thesis
  proof (cases "http_parse_request mem_ok (Some hbuf)")
    case (Inl e)
    then show ?thesis using Some h(1) same assms by (simp add: http_read_request_def http_read_ref_def)
  next
    case (Inr out)
    define need where "need = nat (rq_content_length out)"
    have need: "need \<le> HTTP_MAX_BODY_SIZE" "(if rq_content_length out < 0 then 0 else nat (rq_content_length out)) = need"
      using http_parse_request_ok(1) [OF Inr] by (auto simp: fields_ok_def need_def)
    let ?have = "take (min (length hbuf - (i + 4)) need) (drop (i + 4) hbuf)"
    have "fst (read_body need ?have es') =
      (if need \<le> length ?have + length (stream_of es')
       then Inr (?have @ take (need - length ?have) (stream_of es')) else Inl API_ERR_BAD_REQUEST)"
      by (rule read_body_clean [OF h(2)]) simp
    then have body: "fst (read_body need ?have es') =
      (if length (drop (i + 4) (stream_of es)) < need then Inl API_ERR_BAD_REQUEST
       else Inr (take need (drop (i + 4) (stream_of es))))"
      unfolding rest by (auto simp: min_def)
    have parsed: "http_parse_request mem_ok (Some (take (i + 4) (stream_of es))) = Inr out"
      using same Inr by simp
    obtain r es2 where rb: "read_body need ?have es' = (r, es2)" by fastforce
    have r: "r = (if length (drop (i + 4) (stream_of es)) < need then Inl API_ERR_BAD_REQUEST
       else Inr (take need (drop (i + 4) (stream_of es))))"
      using body rb by simp
    have caps: "\<not> header_cap < 512" "\<not> body_cap < 1" "\<not> body_cap < length hbuf - (i + 4)"
        "\<not> HTTP_MAX_BODY_SIZE < need"
      using h(5) assms need(1) by simp_all
    have "fst (http_read_request mem_ok (Some header_cap) (Some body_cap) es) =
      (if body_cap < need then Inl API_ERR_PAYLOAD_TOO_LARGE
       else case r of Inl e \<Rightarrow> Inl e
         | Inr b \<Rightarrow> Inr (out\<lparr>rq_body := (if need = 0 then None else Some b), rq_body_len := length b\<rparr>))"
      using caps by (simp add: http_read_request_def h(1) Inr Let_def need(2) rb split: sum.splits)
    also have "\<dots> = http_read_ref mem_ok header_cap body_cap (stream_of es)"
      unfolding http_read_ref_def using Some parsed by (simp add: r Let_def need_def [symmetric])
    finally show ?thesis .
  qed
qed

text \<open>A query string as a list of name and value pairs.\<close>

fun split_amp :: "cstr \<Rightarrow> cstr list" where
  "split_amp [] = [ [] ]"
| "split_amp (c # s) =
     (if c = CHR ''&'' then [] # split_amp s
      else case split_amp s of [] \<Rightarrow> [ [c] ] | w # ws \<Rightarrow> (c # w) # ws)"

definition query_pair :: "cstr \<Rightarrow> cstr \<times> cstr" where
  "query_pair seg = (takeWhile (\<lambda>c. c \<noteq> CHR ''='') seg, drop 1 (dropWhile (\<lambda>c. c \<noteq> CHR ''='') seg))"

definition query_ref :: "cstr \<Rightarrow> nat \<Rightarrow> cstr \<Rightarrow> query_result" where
  "query_ref key out_cap q =
     (case map_of (map query_pair (split_amp q)) key of
        None \<Rightarrow> QAbsent
      | Some v \<Rightarrow> if length v + 1 > out_cap then QTruncated
                   else QFound (map (\<lambda>c. if c = CHR ''+'' then CHR '' '' else c) v))"

lemma split_amp_none: "CHR ''&'' \<notin> set s \<Longrightarrow> split_amp s = [s]"
  by (induction s) auto

lemma split_amp_append: "CHR ''&'' \<notin> set u \<Longrightarrow> split_amp (u @ CHR ''&'' # t) = u # split_amp t"
  by (induction u) auto

lemma query_pair_strchr:
  shows "(case strchr seg CHR ''='' of None \<Rightarrow> length seg | Some e \<Rightarrow> length seg - length e) =
      length (fst (query_pair seg))"
    and "(case strchr seg CHR ''='' of None \<Rightarrow> [] | Some e \<Rightarrow> tl e) = snd (query_pair seg)"
proof -
  have "(case strchr seg CHR ''='' of None \<Rightarrow> length seg | Some e \<Rightarrow> length seg - length e) =
      length (fst (query_pair seg)) \<and>
    (case strchr seg CHR ''='' of None \<Rightarrow> [] | Some e \<Rightarrow> tl e) = snd (query_pair seg)"
  proof (cases "strchr seg CHR ''=''")
    case None
    then have "CHR ''='' \<notin> set seg" by (simp add: strchr_None)
    then have td: "takeWhile (\<lambda>c. c \<noteq> CHR ''='') seg = seg" "dropWhile (\<lambda>c. c \<noteq> CHR ''='') seg = []"
      by (auto simp: takeWhile_eq_all_conv)
    show ?thesis using None by (simp add: query_pair_def td)
  next
    case (Some e)
    then obtain u e' where "seg = u @ CHR ''='' # e'" "CHR ''='' \<notin> set u" "e = CHR ''='' # e'"
      by (auto simp: strchr_Some)
    moreover from this(2) have "takeWhile (\<lambda>c. c \<noteq> CHR ''='') u = u" "dropWhile (\<lambda>c. c \<noteq> CHR ''='') u = []"
      by (auto simp: takeWhile_eq_all_conv)
    ultimately show ?thesis using Some by (simp add: query_pair_def takeWhile_append dropWhile_append)
  qed
  then show "(case strchr seg CHR ''='' of None \<Rightarrow> length seg | Some e \<Rightarrow> length seg - length e) =
      length (fst (query_pair seg))"
    and "(case strchr seg CHR ''='' of None \<Rightarrow> [] | Some e \<Rightarrow> tl e) = snd (query_pair seg)"
    by blast+
qed

lemma take_query_name: "take (length (fst (query_pair seg))) seg = fst (query_pair seg)"
  by (simp add: query_pair_def take_length_takeWhile)

text \<open>One turn of the loop: the first segment of the cursor, its name and value.\<close>

lemma query_loop_segment:
  assumes "CHR ''&'' \<notin> set seg" and "cursor = seg \<or> cursor = seg @ CHR ''&'' # t"
    and "cursor \<noteq> []"
  shows "query_loop key cap cursor =
    (if fst (query_pair seg) = key then
       (if length (snd (query_pair seg)) + 1 > cap then QTruncated
        else QFound (map (\<lambda>c. if c = CHR ''+'' then CHR '' '' else c) (snd (query_pair seg))))
     else if cursor = seg then QAbsent else query_loop key cap t)"
proof -
  let ?amp = "strchr cursor CHR ''&''" and ?n = "length (fst (query_pair seg))"
  have amp: "?amp = (if cursor = seg then None else Some (CHR ''&'' # t))"
    using assms by (auto simp: strchr_None)
  have plen: "(case ?amp of None \<Rightarrow> length cursor | Some a \<Rightarrow> length cursor - length a) = length seg"
    using amp assms(2) by auto
  have eqm: "memchr cursor CHR ''='' (length seg) = strchr seg CHR ''=''"
    using assms(2) by (auto simp: memchr_def)
  have "?n \<le> length seg" by (simp add: query_pair_def length_takeWhile_le)
  then have "take ?n cursor = fst (query_pair seg)"
    using assms(2) take_query_name [of seg] by auto
  then have cond: "(?n = length key \<and> take (length key) cursor = key) \<longleftrightarrow> fst (query_pair seg) = key"
    by metis
  show ?thesis
    using assms(3)
    by (subst query_loop.simps) (simp only: Let_def plen eqm query_pair_strchr cond, simp add: amp)
qed

lemma query_loop_ref: "key \<noteq> [] \<Longrightarrow> query_loop key cap q = query_ref key cap q"
proof (induction "length q" arbitrary: q rule: less_induct)
  case less
  show ?case
  proof (cases "q = []")
    case True
    then show ?thesis using less.prems by (subst query_loop.simps) (simp add: query_ref_def query_pair_def)
  next
    case ne: False
    show ?thesis
    proof (cases "CHR ''&'' \<in> set q")
      case False
      then show ?thesis
        using query_loop_segment [OF False, of q "[]" key cap] ne
        by (auto simp: query_ref_def split_amp_none)
    next
      case True
      then obtain seg t where q: "q = seg @ CHR ''&'' # t" "CHR ''&'' \<notin> set seg"
        by (meson split_list_first)
      then have "query_loop key cap t = query_ref key cap t" using less by simp
      then show ?thesis
        using query_loop_segment [OF q(2), of q t key cap] ne q
        by (auto simp: query_ref_def split_amp_append)
    qed
  qed
qed

section \<open>Framing of responses\<close>

lemma find_crlf2_no_CR: "CR \<notin> set l \<Longrightarrow> find_crlf2 (l @ s) = map_option (\<lambda>i. length l + i) (find_crlf2 s)"
  by (induction l; cases "find_crlf2 s") (auto simp: find_crlf2_Cons)

lemma find_crlf2_line:
  assumes "CR \<notin> set l" "s \<noteq> []" "hd s \<noteq> CR"
  shows "find_crlf2 (l @ CR # LF # s) = map_option (\<lambda>i. length l + 2 + i) (find_crlf2 s)"
proof -
  have "find_crlf2 (CR # LF # s) = map_option (\<lambda>i. 2 + i) (find_crlf2 s)"
    using assms(2,3) by (cases s; cases "find_crlf2 s") (auto simp: find_crlf2_Cons)
  then show ?thesis using assms(1) by (cases "find_crlf2 s") (simp_all add: find_crlf2_no_CR)
qed

lemma find_crlf2_last:
  assumes "CR \<notin> set l"
  shows "find_crlf2 (l @ CR # LF # CR # LF # b) = Some (length l)"
  using find_crlf2_no_CR [OF assms, of "CR # LF # CR # LF # b"] by (simp add: find_crlf2_Cons)

lemma CR_notin_show_nat [simp]: "CR \<notin> set (show_nat n)"
  using show_nat_digits [of CR n] by (auto simp: isdigit_def)

lemma CR_notin_show_int [simp]: "CR \<notin> set (show_int i)"
  by (simp add: show_int_def)

lemma CR_notin_reason_for [simp]: "CR \<notin> set (reason_for status)"
  by (simp add: reason_for_def)

lemma response_header_frames:
  assumes "CR \<notin> set ct" and "case allow of None \<Rightarrow> True | Some a \<Rightarrow> CR \<notin> set a"
  shows "find_crlf2 (response_header status ct n allow @ b) =
    Some (length (response_header status ct n allow) - 4)"
proof -
  have step: "CR \<notin> set l \<Longrightarrow> s \<noteq> [] \<Longrightarrow> hd s \<noteq> CR \<Longrightarrow> find_crlf2 s = Some i \<Longrightarrow>
      find_crlf2 (l @ CR # LF # s) = Some (length l + 2 + i)" for l s i
    by (simp add: find_crlf2_line)
  let ?close = "''Connection: close'' @ CR # LF # CR # LF # b"
  let ?allow = "(case allow of None \<Rightarrow> [] | Some a \<Rightarrow> ''Allow: '' @ a @ CRLF) @ ?close"
  let ?len = "(''Content-Length: '' @ show_nat n) @ CR # LF # ?allow"
  let ?ct = "(''Content-Type: '' @ ct) @ CR # LF # ?len"
  let ?st = "(''HTTP/1.1 '' @ show_int status @ '' '' @ reason_for status) @ CR # LF # ?ct"
  have c: "find_crlf2 ?close = Some 17" by (subst find_crlf2_last) simp_all
  have a: "find_crlf2 ?allow = Some (length ?allow - length b - 4)" "hd ?allow \<noteq> CR" "?allow \<noteq> []"
    using assms(2) c step [of "''Allow: '' @ the allow" ?close 17] by (auto split: option.splits)
  have l: "find_crlf2 ?len = Some (length ?len - length b - 4)"
    using step [OF _ a(3,2,1), of "''Content-Length: '' @ show_nat n"] by simp
  have t: "find_crlf2 ?ct = Some (length ?ct - length b - 4)"
    using step [OF _ _ _ l, of "''Content-Type: '' @ ct"] assms(1) by simp
  have "find_crlf2 ?st = Some (length ?st - length b - 4)"
    using step [OF _ _ _ t, of "''HTTP/1.1 '' @ show_int status @ '' '' @ reason_for status"] by simp
  then show ?thesis by (simp add: response_header_def)
qed

text \<open>A complete response with a given status, as the bytes of a connection.  The values of
  the header fields have no carriage return, so the first blank line ends the header, and
  the announced length is that of everything after it.\<close>

definition is_response :: "int \<Rightarrow> bytes \<Rightarrow> bool" where
  "is_response status bs \<longleftrightarrow>
     (\<exists>ct body allow. CR \<notin> set ct \<and> (case allow of None \<Rightarrow> True | Some a \<Rightarrow> CR \<notin> set a) \<and>
        bs = response_header status ct (length body) allow @ body)"

lemma line_split:
  assumes "a @ CR # r = a' @ CR # r'" "CR \<notin> set a" "CR \<notin> set a'"
  shows "a = a' \<and> r = r'"
proof -
  have "a = takeWhile (\<lambda>c. c \<noteq> CR) (a @ CR # r)" using assms(2) by (induction a) auto
  moreover have "a' = takeWhile (\<lambda>c. c \<noteq> CR) (a' @ CR # r')" using assms(3) by (induction a') auto
  ultimately have "a = a'" using assms(1) by simp
  with assms(1) show ?thesis by simp
qed

lemma show_nat_inject: "show_nat m = show_nat n \<Longrightarrow> m = n"
  by (metis digits_val_show_nat)

text \<open>The header determines the announced length.\<close>

lemma response_header_length_inject:
  assumes "response_header s ct m al @ x = response_header s' ct' n al' @ y" "CR \<notin> set ct" "CR \<notin> set ct'"
  shows "m = n"
proof -
  define tl1 where "tl1 = (\<lambda>al x. LF # (case al of None \<Rightarrow> [] | Some a \<Rightarrow> ''Allow: '' @ a @ CRLF) @
    ''Connection: close'' @ CRLF @ CRLF @ (x :: bytes))"
  define tl2 where "tl2 = (\<lambda>m al x. LF # (''Content-Length: '' @ show_nat m) @ CR # tl1 al x)"
  define tl3 where "tl3 = (\<lambda>ct m al x. LF # (''Content-Type: '' @ ct) @ CR # tl2 m al x)"
  have 1: "(''HTTP/1.1 '' @ show_int s @ '' '' @ reason_for s) @ CR # tl3 ct m al x =
      (''HTTP/1.1 '' @ show_int s' @ '' '' @ reason_for s') @ CR # tl3 ct' n al' y"
    using assms(1) by (simp add: response_header_def tl1_def tl2_def tl3_def)
  have "tl3 ct m al x = tl3 ct' n al' y" using line_split [OF 1] by simp
  then have 2: "(''Content-Type: '' @ ct) @ CR # tl2 m al x = (''Content-Type: '' @ ct') @ CR # tl2 n al' y"
    by (simp add: tl3_def)
  have "tl2 m al x = tl2 n al' y" using line_split [OF 2] assms(2,3) by simp
  then have 3: "(''Content-Length: '' @ show_nat m) @ CR # tl1 al x = (''Content-Length: '' @ show_nat n) @ CR # tl1 al' y"
    by (simp add: tl2_def)
  have "show_nat m = show_nat n" using line_split [OF 3] by simp
  then show ?thesis by (rule show_nat_inject)
qed

text \<open>So nothing can follow a complete response within another one: in particular two
  responses in a row are not one response.\<close>

lemma response_not_extended:
  assumes "is_response s (x @ z)" "is_response s' x"
  shows "z = []"
proof -
  obtain ct b al where 1: "CR \<notin> set ct" "case al of None \<Rightarrow> True | Some a \<Rightarrow> CR \<notin> set a"
    "x @ z = response_header s ct (length b) al @ b" using assms(1) by (auto simp: is_response_def)
  obtain ct' b' al' where 2: "CR \<notin> set ct'" "case al' of None \<Rightarrow> True | Some a \<Rightarrow> CR \<notin> set a"
    "x = response_header s' ct' (length b') al' @ b'" using assms(2) by (auto simp: is_response_def)
  let ?h = "response_header s ct (length b) al" and ?h' = "response_header s' ct' (length b') al'"
  have eq: "?h @ b = ?h' @ (b' @ z)" using 1(3) 2(3) by simp
  have "Some (length ?h - 4) = Some (length ?h' - 4)"
    using response_header_frames [OF 1(1,2), of s "length b" b]
      response_header_frames [OF 2(1,2), of s' "length b'" "b' @ z"] eq by metis
  moreover have "4 \<le> length ?h" "4 \<le> length ?h'" by (simp_all add: response_header_def)
  ultimately have "length ?h = length ?h'" by simp
  then have "b = b' @ z" using eq append_eq_append_conv by blast
  moreover have "length b = length b'" by (rule response_header_length_inject [OF eq 1(1) 2(1)])
  ultimately show ?thesis by simp
qed

lemma responded_is_response:
  "CR \<notin> set ct \<Longrightarrow> case allow of None \<Rightarrow> True | Some a \<Rightarrow> CR \<notin> set a \<Longrightarrow>
   is_response status (render_response status ct body allow)"
  unfolding is_response_def render_response_def by blast

text \<open>A request that could not be read is never reported as a success.\<close>

lemma parse_line_not_OK: "parse_request_line l out \<noteq> Inl API_OK" "parse_header_line l out \<noteq> Inl API_OK"
  by (auto simp: parse_request_line_def parse_header_line_def Let_def split: option.splits prod.splits if_splits)

lemma parse_lines_not_OK: "snd (parse_lines n s out) \<noteq> Inl API_OK"
  by (induction n s out rule: parse_lines.induct)
    (subst parse_lines.simps, auto simp: parse_line_not_OK Let_def split: option.splits sum.splits prod.splits if_splits)

lemma read_headers_not_OK: "fst (read_headers cap buf es) \<noteq> Inl API_OK"
  by (induction cap buf es rule: read_headers.induct)
    (subst read_headers.simps, auto split: option.splits prod.splits)

lemma read_body_not_OK: "fst (read_body need have es) \<noteq> Inl API_OK"
  by (induction need "have" es rule: read_body.induct)
    (subst read_body.simps, auto split: option.splits prod.splits)

lemma http_parse_request_not_OK: "http_parse_request mem_ok buf \<noteq> Inl API_OK"
proof -
  have "parse_lines n s out \<noteq> (k, Inl API_OK)" for n s out k
    using parse_lines_not_OK [of n s out] by auto
  then show ?thesis
    by (auto simp: http_parse_request_def split: option.splits sum.splits prod.splits if_splits)
qed

lemma http_read_request_not_OK: "http_read_request mem_ok hb bb es \<noteq> (Inl API_OK, es')"
proof -
  have "read_headers cap buf es \<noteq> (Inl API_OK, es')" "read_body need have es \<noteq> (Inl API_OK, es')" for cap buf need "have" es es'
    using read_headers_not_OK [of cap buf es] read_body_not_OK [of need "have" es] by auto
  then show ?thesis
    by (auto simp: http_read_request_def Let_def http_parse_request_not_OK split: option.splits sum.splits prod.splits if_splits)
qed

lemma http_respond_prefix:
  assumes "http_respond status (Some ct) (Some b) (length b) allow c = (ok, c')"
    and "snprintf_fits 1024 (response_header status ct (length b) allow)"
  shows "\<exists>p q. render_response status ct b allow = p @ q \<and> cn_out c' = cn_out c @ p \<and> (ok \<longleftrightarrow> q = [])"
proof -
  let ?h = "response_header status ct (length b) allow"
  obtain ok1 c1 where s1: "send_loop ?h c = (ok1, c1)" by fastforce
  then obtain p1 q1 where p1: "?h = p1 @ q1" "cn_out c1 = cn_out c @ p1" "ok1 \<longleftrightarrow> q1 = []"
    using send_loop_prefix by blast
  have h: "server_send_all (Some ?h) (length ?h) c = (ok1, c1)"
    using s1 by (simp add: server_send_all_def response_header_def)
  show ?thesis
  proof (cases ok1)
    case False
    then have "ok = False" "c' = c1" using assms h by (auto simp: http_respond_def Let_def)
    then show ?thesis using p1 False by (intro exI [of _ p1] exI [of _ "q1 @ b"]) (simp add: render_response_def)
  next
    case True
    then have "send_loop b c1 = (ok, c')"
      using assms h by (cases "b = []") (auto simp: http_respond_def Let_def server_send_all_def send_loop.simps [of "[]"])
    then obtain p2 q2 where "b = p2 @ q2" "cn_out c' = cn_out c1 @ p2" "ok \<longleftrightarrow> q2 = []"
      using send_loop_prefix by blast
    then show ?thesis
      using p1 True by (intro exI [of _ "?h @ p2"] exI [of _ q2]) (simp add: render_response_def)
  qed
qed

section \<open>Properties\<close>

text \<open>C36: \<open>api_error_status\<close> is total on raw enumeration values and yields 200
  for \<open>API_OK\<close> (value 0) only; every other value, known or not, maps to a
  status of at least 400.\<close>

theorem api_error_status_never_falls_back:
  "(api_error_status_raw i = 200 \<longleftrightarrow> i = 0) \<and> (i = 0 \<or> 400 \<le> api_error_status_raw i)"
proof -
  have "i < 0 \<or> 15 \<le> i \<or> i = 0 \<or> i = 1 \<or> i = 2 \<or> i = 3 \<or> i = 4 \<or> i = 5 \<or> i = 6 \<or> i = 7 \<or>
      i = 8 \<or> i = 9 \<or> i = 10 \<or> i = 11 \<or> i = 12 \<or> i = 13 \<or> i = 14" by arith
  then show ?thesis by (elim disjE) (simp_all add: api_error_status_raw_def api_error_of_int_def)
qed

text \<open>C27: \<open>server_send_all\<close> under any sequence of partial writes,
  interruptions and failures delivers a prefix of the buffer in order, without
  loss or duplication, and reports success exactly when all of it was delivered.\<close>

theorem server_send_all_exact:
  assumes "server_send_all (Some buf) (length buf) c = (ok, c')"
  shows "\<exists>p q. buf = p @ q \<and> cn_out c' = cn_out c @ p \<and> (ok \<longleftrightarrow> q = [])"
proof (cases "buf = []")
  case True
  with assms show ?thesis by (auto simp: server_send_all_def)
next
  case False
  then have "send_loop buf c = (ok, c')" using assms by (simp add: server_send_all_def)
  then show ?thesis by (rule send_loop_prefix)
qed

theorem server_send_all_exact_witness:
  "\<exists>p q. ''abcd'' = p @ q \<and> ''abcd'' = [] @ p \<and> (True \<longleftrightarrow> q = [])"
proof -
  let ?c = "\<lparr>cn_in = [], cn_send = [SendIntr, SendPart 1, SendIntr, SendPart 0], cn_out = []\<rparr>"
  have "server_send_all (Some ''abcd'') (length ''abcd'') ?c =
      (True, \<lparr>cn_in = [], cn_send = [], cn_out = ''abcd''\<rparr>)"
    by (simp add: server_send_all_def send_loop.simps)
  from server_send_all_exact [OF this] show ?thesis by simp
qed

text \<open>C9: how the kernel splits and interrupts the byte stream does not matter:
  with the buffers of \<open>handle_client\<close>, \<open>http_read_request\<close> computes the
  reference function of the concatenated stream.\<close>

theorem http_read_request_segmentation:
  assumes "clean es"
  shows "fst (http_read_request mem_ok (Some HTTP_MAX_HEADERS_SIZE) (Some HTTP_MAX_BODY_SIZE) es) =
    http_read_ref mem_ok HTTP_MAX_HEADERS_SIZE HTTP_MAX_BODY_SIZE (stream_of es)"
  by (rule http_read_request_ref [OF assms]) simp_all

theorem http_read_request_segmentation_witness:
  "fst (http_read_request True (Some HTTP_MAX_HEADERS_SIZE) (Some HTTP_MAX_BODY_SIZE)
      [RecvData ''PUT /k HTT'', RecvIntr, RecvData (''P/1.1'' @ CRLF @ ''Content-Length: 3'' @ CRLF @ CRLF @ ''ab''),
       RecvData ''cd'']) =
   http_read_ref True HTTP_MAX_HEADERS_SIZE HTTP_MAX_BODY_SIZE
     (''PUT /k HTTP/1.1'' @ CRLF @ ''Content-Length: 3'' @ CRLF @ CRLF @ ''abcd'')"
  by (subst http_read_request_segmentation) (simp_all add: clean_def)

text \<open>C24: every request the parser accepts is well-formed: each field fits its
  array with a terminator, the path starts with a slash and holds no query, the
  declared length lies between -1 (absent) and 65536, the method is known and
  the body is not chunked.\<close>

theorem http_parse_request_wellformed:
  assumes "http_parse_request mem_ok buf = Inr rq"
  shows "fields_ok rq \<and> path_ok rq \<and> rq_method rq \<noteq> HTTP_UNKNOWN \<and> \<not> rq_has_chunked rq"
  using http_parse_request_ok [OF assms] by blast

theorem http_parse_request_wellformed_witness:
  "\<exists>rq. http_parse_request True (Some (''GET /health?v=1 HTTP/1.1'' @ CRLF @ ''Host: x'' @ CRLF @ CRLF)) = Inr rq \<and>
     rq_path rq = ''/health'' \<and> fields_ok rq \<and> path_ok rq \<and> rq_method rq \<noteq> HTTP_UNKNOWN \<and> \<not> rq_has_chunked rq"
proof -
  let ?p = "http_parse_request True (Some (''GET /health?v=1 HTTP/1.1'' @ CRLF @ ''Host: x'' @ CRLF @ CRLF))"
  have "case ?p of Inl e \<Rightarrow> False | Inr rq \<Rightarrow> rq_path rq = ''/health''" by code_simp
  then obtain rq where "?p = Inr rq" "rq_path rq = ''/health''" by (auto split: sum.splits)
  with http_parse_request_wellformed [OF this(1)] show ?thesis by blast
qed

text \<open>C26: \<open>http_query_get\<close> with a non-empty key agrees with splitting the query
  at ampersands, each segment at its first equals sign, and taking the first
  segment whose name is the key; a value that does not fit is reported, never
  cut.\<close>

theorem http_query_get_reference:
  "http_query_get (Some q) (Some (k # ks)) (Some (Suc n)) = query_ref (k # ks) (Suc n) q"
  by (simp add: http_query_get_def query_loop_ref)

text \<open>C23: a response is framed correctly: the peer receives a prefix of header and
  body and success means all of both; the first blank line of the response ends
  the header, so that what follows it is exactly the body, and the header
  announces the body's length.\<close>

theorem http_respond_framing:
  assumes "http_respond status (Some ct) (Some b) (length b) allow c = (ok, c')"
    and "snprintf_fits 1024 (response_header status ct (length b) allow)"
    and "CR \<notin> set ct" and "case allow of None \<Rightarrow> True | Some a \<Rightarrow> CR \<notin> set a"
  shows "\<exists>h. (\<exists>p q. h @ b = p @ q \<and> cn_out c' = cn_out c @ p \<and> (ok \<longleftrightarrow> q = [])) \<and>
    find_crlf2 (h @ b) = Some (length h - 4) \<and> 4 \<le> length h \<and>
    sublist (CRLF @ ''Content-Length: '' @ show_nat (length b) @ CRLF) h"
proof (rule exI [of _ "response_header status ct (length b) allow"], intro conjI)
  let ?h = "response_header status ct (length b) allow"
  show "\<exists>p q. ?h @ b = p @ q \<and> cn_out c' = cn_out c @ p \<and> (ok \<longleftrightarrow> q = [])"
    using http_respond_prefix [OF assms(1,2)] by (simp add: render_response_def)
  show "find_crlf2 (?h @ b) = Some (length ?h - 4)" by (rule response_header_frames [OF assms(3,4)])
  show "4 \<le> length ?h" by (simp add: response_header_def)
  show "sublist (CRLF @ ''Content-Length: '' @ show_nat (length b) @ CRLF) ?h"
    unfolding sublist_def response_header_def
    by (intro exI [of _ "''HTTP/1.1 '' @ show_int status @ '' '' @ reason_for status @ CRLF @ ''Content-Type: '' @ ct"]
        exI [of _ "(case allow of None \<Rightarrow> [] | Some a \<Rightarrow> ''Allow: '' @ a @ CRLF) @ ''Connection: close'' @ CRLF @ CRLF"])
      simp
qed

theorem http_respond_framing_witness:
  "\<exists>h. (\<exists>p q. h @ ''ok'' = p @ q \<and>
      cn_out (snd (http_respond 200 (Some ''text/html'') (Some ''ok'') (length ''ok'') None
        \<lparr>cn_in = [], cn_send = [SendPart 9, SendFail], cn_out = []\<rparr>)) = [] @ p \<and> (False \<longleftrightarrow> q = [])) \<and>
    find_crlf2 (h @ ''ok'') = Some (length h - 4) \<and> 4 \<le> length h \<and>
    sublist (CRLF @ ''Content-Length: '' @ show_nat (length ''ok'') @ CRLF) h"
proof -
  let ?c = "\<lparr>cn_in = [], cn_send = [SendPart 9, SendFail], cn_out = []\<rparr>"
  let ?r = "http_respond 200 (Some ''text/html'') (Some ''ok'') (length ''ok'') None ?c"
  have "fst ?r = False" by code_simp
  then have r: "?r = (False, snd ?r)" by (metis prod.collapse)
  have f: "snprintf_fits 1024 (response_header 200 ''text/html'' (length ''ok'') None)" by code_simp
  from http_respond_framing [OF r f] show ?thesis by simp
qed

end
