(* ===== verification/Json.thy ===== *)
theory Json
  imports Http_Types
begin

text \<open>
  The JSON helpers of \<open>src/json.c\<close>: escaping a string for output, and
  extracting one string field from a flat object.  The parser works on byte
  lists (the input need not be NUL-terminated), its intermediate buffers are C
  strings.  The second half relates the parser to a grammar of flat objects and
  the escaper to a reference definition.
\<close>

section \<open>Escaping\<close>

text \<open>The \<open>switch\<close> of \<open>json_escape\<close>: \<open>None\<close> is its \<open>default\<close> label.\<close>

definition named_escape :: "char \<Rightarrow> cstr option" where
  "named_escape c =
     (if c = DQ then Some [BSLASH, DQ]
      else if c = BSLASH then Some [BSLASH, BSLASH]
      else if c = LF then Some [BSLASH, CHR ''n'']
      else if c = CR then Some [BSLASH, CHR ''r'']
      else if c = TAB then Some [BSLASH, CHR ''t'']
      else None)"

definition escape_seq :: "char \<Rightarrow> cstr" where
  "escape_seq c = (case named_escape c of Some e \<Rightarrow> e | None \<Rightarrow> [c])"

text \<open>The loop of \<open>json_escape\<close> from write position \<open>pos\<close>; \<open>None\<close> is the
  return value \<open>-1\<close>.\<close>

fun json_escape_loop :: "nat \<Rightarrow> nat \<Rightarrow> cstr \<Rightarrow> cstr option" where
  "json_escape_loop dest_cap pos [] = Some []"
| "json_escape_loop dest_cap pos (c # cs) =
     (if uchar c < 0x20 \<and> named_escape c = None then None
      else if pos + length (escape_seq c) + 1 > dest_cap then None
      else map_option (\<lambda>r. escape_seq c @ r)
             (json_escape_loop dest_cap (pos + length (escape_seq c)) cs))"

definition json_escape :: "outbuf \<Rightarrow> cstr option \<Rightarrow> cstr option" where
  "json_escape dest src =
     (case (dest, src) of
        (Some dest_cap, Some s) \<Rightarrow> if dest_cap = 0 then None else json_escape_loop dest_cap 0 s
      | _ \<Rightarrow> None)"

section \<open>Parsing\<close>

definition is_json_space :: "char \<Rightarrow> bool" where
  "is_json_space c \<longleftrightarrow> c = CHR '' '' \<or> c = TAB \<or> c = LF \<or> c = CR"

definition skip_spaces :: "bytes \<Rightarrow> bytes" where
  "skip_spaces = dropWhile is_json_space"

definition unescape :: "char \<Rightarrow> char option" where
  "unescape c =
     (if c = DQ then Some DQ
      else if c = BSLASH then Some BSLASH
      else if c = CHR ''n'' then Some LF
      else if c = CHR ''r'' then Some CR
      else if c = CHR ''t'' then Some TAB
      else None)"

text \<open>The loop of \<open>parse_quoted\<close> from write position \<open>pos\<close>: the bytes
  stored from \<open>pos\<close> on, and the input after the closing quote.\<close>

fun parse_quoted_loop :: "nat \<Rightarrow> nat \<Rightarrow> bytes \<Rightarrow> (bytes \<times> bytes) option" where
  "parse_quoted_loop out_cap pos [] = None"
| "parse_quoted_loop out_cap pos (c # cs) =
     (if c = DQ then
        (if out_cap = 0 then None else if pos \<ge> out_cap then None else Some ([], cs))
      else if c = BSLASH then
        (case cs of
           [] \<Rightarrow> None
         | d # ds \<Rightarrow>
             (case unescape d of
                None \<Rightarrow> None
              | Some decoded \<Rightarrow>
                  if pos + 1 \<ge> out_cap then None
                  else map_option (apfst ((#) decoded)) (parse_quoted_loop out_cap (pos + 1) ds)))
      else if pos + 1 \<ge> out_cap then None
      else map_option (apfst ((#) c)) (parse_quoted_loop out_cap (pos + 1) cs))"

definition parse_quoted :: "nat \<Rightarrow> bytes \<Rightarrow> (bytes \<times> bytes) option" where
  "parse_quoted out_cap ptr =
     (case ptr of
        [] \<Rightarrow> None
      | c # cs \<Rightarrow> if c \<noteq> DQ then None else parse_quoted_loop out_cap 0 cs)"

lemma length_skip_spaces: "length (skip_spaces s) \<le> length s"
  by (simp add: skip_spaces_def length_dropWhile_le)

lemma parse_quoted_loop_shorter:
  "parse_quoted_loop cap pos s = Some (v, r) \<Longrightarrow> length r < length s"
proof (induction cap pos s arbitrary: v rule: parse_quoted_loop.induct)
  case (2 cap pos c cs)
  then show ?case by (fastforce split: if_splits list.splits option.splits)
qed simp

lemma parse_quoted_shorter: "parse_quoted cap s = Some (v, r) \<Longrightarrow> length r < length s"
  by (auto simp: parse_quoted_def split: list.splits if_splits dest: parse_quoted_loop_shorter)

text \<open>The \<open>for (;;)\<close> loop of \<open>json_get_string\<close>; \<open>found\<close> is the value
  already stored in \<open>out\<close>.  The result is the error, or the value.  The
  buffers \<open>name\<close> and \<open>value\<close> hold 128 and 8192 bytes.\<close>

function json_fields :: "cstr \<Rightarrow> nat \<Rightarrow> cstr option \<Rightarrow> bytes \<Rightarrow> ApiError + cstr" where
  "json_fields field out_cap found ptr =
     (case skip_spaces ptr of
        [] \<Rightarrow> Inl API_ERR_BAD_REQUEST
      | c # cs \<Rightarrow>
          if c = CHR ''}'' then
            (if skip_spaces cs \<noteq> [] then Inl API_ERR_BAD_REQUEST
             else case found of None \<Rightarrow> Inl API_ERR_MISSING_FIELD | Some v \<Rightarrow> Inr v)
          else
            (case parse_quoted 128 (c # cs) of
               None \<Rightarrow> Inl API_ERR_BAD_REQUEST
             | Some (name, after_name) \<Rightarrow>
                 (case skip_spaces after_name of
                    [] \<Rightarrow> Inl API_ERR_BAD_REQUEST
                  | c1 # cs1 \<Rightarrow>
                      if c1 \<noteq> CHR '':'' then Inl API_ERR_BAD_REQUEST
                      else
                        (case skip_spaces cs1 of
                           [] \<Rightarrow> Inl API_ERR_BAD_REQUEST
                         | c2 # cs2 \<Rightarrow>
                             if c2 \<noteq> DQ then Inl API_ERR_BAD_REQUEST
                             else
                               (case parse_quoted 8192 (c2 # cs2) of
                                  None \<Rightarrow> Inl API_ERR_BAD_REQUEST
                                | Some (val, after_value) \<Rightarrow>
                                    if cstr_of name = field \<and> found \<noteq> None
                                    then Inl API_ERR_BAD_REQUEST
                                    else if cstr_of name = field \<and> length (cstr_of val) + 1 > out_cap
                                    then Inl API_ERR_PAYLOAD_TOO_LARGE
                                    else
                                      (let found' = (if cstr_of name = field then Some (cstr_of val) else found)
                                       in case skip_spaces after_value of
                                            [] \<Rightarrow> Inl API_ERR_BAD_REQUEST
                                          | c3 # cs3 \<Rightarrow>
                                              if c3 = CHR '','' then json_fields field out_cap found' cs3
                                              else if c3 = CHR ''}'' then json_fields field out_cap found' (c3 # cs3)
                                              else Inl API_ERR_BAD_REQUEST))))))"
  by pat_completeness auto
termination
proof (relation "measure (\<lambda>(field, cap, found, ptr). length ptr)", goal_cases)
  case 1
  show ?case by simp
next
  case (2 field cap found ptr c cs nm name after_name c1 cs1 c2 cs2 vl val after_value found' c3 cs3)
  then show ?case
    using length_skip_spaces [of ptr] length_skip_spaces [of after_name] length_skip_spaces [of cs1]
      length_skip_spaces [of after_value] parse_quoted_shorter [of 128 "c # cs" name after_name]
      parse_quoted_shorter [of 8192 "c2 # cs2" val after_value]
    by simp
next
  case (3 field cap found ptr c cs nm name after_name c1 cs1 c2 cs2 vl val after_value found' c3 cs3)
  then show ?case
    using length_skip_spaces [of ptr] length_skip_spaces [of after_name] length_skip_spaces [of cs1]
      length_skip_spaces [of after_value] parse_quoted_shorter [of 128 "c # cs" name after_name]
      parse_quoted_shorter [of 8192 "c2 # cs2" val after_value]
    by simp
qed

declare json_fields.simps [simp del]

definition json_get_string :: "bytes option \<Rightarrow> cstr option \<Rightarrow> outbuf \<Rightarrow> ApiError + cstr" where
  "json_get_string body field out =
     (case (body, field, out) of
        (Some b, Some f, Some out_cap) \<Rightarrow>
          if out_cap = 0 then Inl API_ERR_BAD_REQUEST
          else
            (case skip_spaces b of
               [] \<Rightarrow> Inl API_ERR_BAD_REQUEST
             | c # cs \<Rightarrow> if c \<noteq> CHR ''{'' then Inl API_ERR_BAD_REQUEST
                         else json_fields f out_cap None cs)
      | _ \<Rightarrow> Inl API_ERR_BAD_REQUEST)"

section \<open>Escaping against its reference definition\<close>

definition escapable :: "char \<Rightarrow> bool" where
  "escapable c \<longleftrightarrow> 0x20 \<le> uchar c \<or> named_escape c \<noteq> None"

definition escape_ref :: "cstr \<Rightarrow> cstr" where
  "escape_ref s = concat (map escape_seq s)"

lemma escape_ref_simps [simp]:
  "escape_ref [] = []"
  "escape_ref (c # s) = escape_seq c @ escape_ref s"
  "escape_ref (s @ t) = escape_ref s @ escape_ref t"
  by (simp_all add: escape_ref_def)

lemma length_escape_seq: "length (escape_seq c) \<le> 2" "0 < length (escape_seq c)"
  by (auto simp: escape_seq_def named_escape_def)

lemma length_escape_ref: "length (escape_ref s) \<le> 2 * length s" "length s \<le> length (escape_ref s)"
proof (induction s)
  case (Cons c s)
  {
    case 1
    then show ?case using Cons(1) length_escape_seq(1) [of c] by simp
  next
    case 2
    then show ?case using Cons(2) length_escape_seq(2) [of c]
      by (simp del: length_greater_0_conv)
  }
qed simp_all

lemma json_escape_loop_ref:
  "pos < cap \<Longrightarrow>
   json_escape_loop cap pos s =
     (if list_all escapable s \<and> pos + length (escape_ref s) < cap then Some (escape_ref s) else None)"
proof (induction s arbitrary: pos)
  case (Cons c s)
  show ?case
  proof (cases "escapable c \<and> pos + length (escape_seq c) < cap")
    case True
    then show ?thesis
      using Cons.IH [of "pos + length (escape_seq c)"] by (auto simp: escapable_def add.assoc)
  next
    case False
    then show ?thesis by (auto simp: escapable_def)
  qed
qed simp

lemma json_escape_ref:
  "json_escape (Some cap) (Some s) =
     (if list_all escapable s \<and> length (escape_ref s) < cap then Some (escape_ref s) else None)"
  by (auto simp: json_escape_def json_escape_loop_ref)

lemma json_escape_SomeD:
  assumes "json_escape (Some cap) (Some s) = Some e"
  shows "e = escape_ref s" and "list_all escapable s" and "length e < cap"
  using assms by (auto simp: json_escape_ref split: if_splits)

text \<open>A destination of twice the source and one more byte is never too small.\<close>

lemma json_escape_double:
  "length s < n \<Longrightarrow> 2 * n \<le> cap + 1 \<Longrightarrow>
   json_escape (Some cap) (Some s) = (if list_all escapable s then Some (escape_ref s) else None)"
  using length_escape_ref(1) [of s] by (auto simp: json_escape_ref)

lemma nonul_escape_seq: "c \<noteq> NUL \<Longrightarrow> nonul (escape_seq c)"
  by (auto simp: escape_seq_def named_escape_def)

lemma nonul_escape_ref [nonul_intros]: "nonul s \<Longrightarrow> nonul (escape_ref s)"
  by (induction s) (auto simp: nonul_escape_seq)

lemma escapable_escape_seq: "escapable c \<Longrightarrow> d \<in> set (escape_seq c) \<Longrightarrow> 0x20 \<le> uchar d"
  by (auto simp: escapable_def escape_seq_def named_escape_def split: if_splits)

lemma escapable_escape_ref: "list_all escapable s \<Longrightarrow> d \<in> set (escape_ref s) \<Longrightarrow> 0x20 \<le> uchar d"
  by (induction s) (auto dest: escapable_escape_seq)

section \<open>Quoted strings\<close>

text \<open>\<open>encodes v e\<close>: the bytes \<open>e\<close> between two quotes denote \<open>v\<close>.\<close>

inductive encodes :: "bytes \<Rightarrow> bytes \<Rightarrow> bool" where
  enc_nil: "encodes [] []"
| enc_raw: "c \<noteq> DQ \<Longrightarrow> c \<noteq> BSLASH \<Longrightarrow> encodes v e \<Longrightarrow> encodes (c # v) (c # e)"
| enc_esc: "unescape d = Some x \<Longrightarrow> encodes v e \<Longrightarrow> encodes (x # v) (BSLASH # d # e)"

lemma named_escape_unescape:
  "named_escape c = Some e \<Longrightarrow> \<exists>d. e = [BSLASH, d] \<and> unescape d = Some c"
  unfolding named_escape_def by (simp split: if_split_asm; hypsubst?; simp add: unescape_def)

lemma encodes_escape_ref: "encodes s (escape_ref s)"
proof (induction s)
  case (Cons c s)
  show ?case
  proof (cases "named_escape c")
    case None
    then have "c \<noteq> DQ" and "c \<noteq> BSLASH" by (auto simp: named_escape_def split: if_splits)
    with None Cons show ?thesis by (simp add: escape_seq_def enc_raw)
  next
    case (Some e)
    then obtain d where "e = [BSLASH, d]" and "unescape d = Some c"
      using named_escape_unescape by blast
    with Some Cons show ?thesis by (simp add: escape_seq_def enc_esc)
  qed
qed (simp add: enc_nil)

lemma parse_quoted_loop_encodes:
  "encodes v e \<Longrightarrow>
   parse_quoted_loop cap pos (e @ DQ # r) = (if pos + length v < cap then Some (v, r) else None)"
proof (induction arbitrary: pos rule: encodes.induct)
  case enc_nil
  show ?case by auto
next
  case (enc_raw c v e)
  then show ?case by auto
next
  case (enc_esc d x v e)
  then show ?case by auto
qed

lemma parse_quoted_loop_SomeD:
  "parse_quoted_loop cap pos s = Some (v, r) \<Longrightarrow>
   \<exists>e. encodes v e \<and> s = e @ DQ # r \<and> pos + length v < cap"
proof (induction cap pos s arbitrary: v rule: parse_quoted_loop.induct)
  case (2 cap pos c cs)
  show ?case
  proof (cases "c = DQ")
    case True
    with "2.prems" show ?thesis by (auto split: if_splits intro: enc_nil)
  next
    case nq: False
    show ?thesis
    proof (cases "c = BSLASH")
      case True
      with "2.prems" obtain d ds x v' where d: "cs = d # ds" "unescape d = Some x"
        "\<not> cap \<le> pos + 1" "v = x # v'" "parse_quoted_loop cap (pos + 1) ds = Some (v', r)"
        by (auto split: list.splits option.splits if_splits)
      with "2.IH"(1) [OF nq True d(1,2,3,5)] obtain e where
        "encodes v' e" "ds = e @ DQ # r" "pos + 1 + length v' < cap" by blast
      with d True show ?thesis
        by (intro exI [of _ "BSLASH # d # e"]) (simp add: enc_esc)
    next
      case False
      with nq "2.prems" obtain v' where v': "\<not> cap \<le> pos + 1" "v = c # v'"
        "parse_quoted_loop cap (pos + 1) cs = Some (v', r)"
        by (auto split: if_splits)
      with "2.IH"(2) [OF nq False v'(1,3)] obtain e where
        "encodes v' e" "cs = e @ DQ # r" "pos + 1 + length v' < cap" by blast
      with v' nq False show ?thesis
        by (intro exI [of _ "c # e"]) (simp add: enc_raw)
    qed
  qed
qed simp

lemma parse_quoted_iff:
  "parse_quoted cap s = Some (v, r) \<longleftrightarrow> (\<exists>e. encodes v e \<and> s = DQ # e @ DQ # r \<and> length v < cap)"
  by (auto simp: parse_quoted_def parse_quoted_loop_encodes split: list.splits if_splits
      dest!: parse_quoted_loop_SomeD)

section \<open>Flat objects\<close>

text \<open>The grammar of what \<open>json_get_string\<close> accepts after the opening brace:
  members with string values separated by commas, with optional white space
  around every token.  A comma may be followed directly by the closing brace
  (rule \<open>fm_comma\<close> over \<open>fm_end\<close>).\<close>

definition spaces :: "bytes \<Rightarrow> bool" where
  "spaces w \<longleftrightarrow> list_all is_json_space w"

definition member_ok :: "bytes \<Rightarrow> bytes \<Rightarrow> bytes \<Rightarrow> bool" where
  "member_ok m name val \<longleftrightarrow>
     (\<exists>w1 e1 w2 w3 e2 w4. m = w1 @ DQ # e1 @ DQ # w2 @ CHR '':'' # w3 @ DQ # e2 @ DQ # w4 \<and>
        spaces w1 \<and> spaces w2 \<and> spaces w3 \<and> spaces w4 \<and>
        encodes name e1 \<and> length name < 128 \<and> encodes val e2 \<and> length val < 8192)"

inductive flat_members :: "bytes \<Rightarrow> (bytes \<times> bytes) list \<Rightarrow> bool" where
  fm_end: "spaces w1 \<Longrightarrow> spaces w2 \<Longrightarrow> flat_members (w1 @ CHR ''}'' # w2) []"
| fm_last: "member_ok m name val \<Longrightarrow> spaces w \<Longrightarrow>
    flat_members (m @ CHR ''}'' # w) [(name, val)]"
| fm_comma: "member_ok m name val \<Longrightarrow> flat_members r ms \<Longrightarrow>
    flat_members (m @ CHR '','' # r) ((name, val) # ms)"

definition flat_object :: "bytes \<Rightarrow> (bytes \<times> bytes) list \<Rightarrow> bool" where
  "flat_object b ms \<longleftrightarrow> (\<exists>w r. b = w @ CHR ''{'' # r \<and> spaces w \<and> flat_members r ms)"

text \<open>What the loop does with the members, in the order of the source.\<close>

fun pick :: "cstr \<Rightarrow> nat \<Rightarrow> cstr option \<Rightarrow> (bytes \<times> bytes) list \<Rightarrow> ApiError + cstr" where
  "pick field cap found [] =
     (case found of None \<Rightarrow> Inl API_ERR_MISSING_FIELD | Some v \<Rightarrow> Inr v)"
| "pick field cap found ((name, val) # ms) =
     (if cstr_of name = field \<and> found \<noteq> None then Inl API_ERR_BAD_REQUEST
      else if cstr_of name = field \<and> length (cstr_of val) + 1 > cap then Inl API_ERR_PAYLOAD_TOO_LARGE
      else pick field cap (if cstr_of name = field then Some (cstr_of val) else found) ms)"

lemma spaces_Nil [simp]: "spaces []"
  by (simp add: spaces_def)

lemma skip_spaces_token [simp]:
  "spaces w \<Longrightarrow> \<not> is_json_space c \<Longrightarrow> skip_spaces (w @ c # s) = c # s"
  by (simp add: skip_spaces_def spaces_def list_all_iff dropWhile_append2)

lemma skip_spaces_all [simp]: "spaces w \<Longrightarrow> skip_spaces w = []"
  by (simp add: skip_spaces_def spaces_def list_all_iff)

lemma skip_spaces_Nil: "skip_spaces s = [] \<longleftrightarrow> spaces s"
  by (simp add: skip_spaces_def spaces_def list_all_iff)

lemma skip_spaces_Cons: "skip_spaces s = c # cs \<Longrightarrow> \<exists>w. spaces w \<and> s = w @ c # cs"
  unfolding skip_spaces_def spaces_def list_all_iff
  by (metis set_takeWhileD takeWhile_dropWhile_id)

lemma not_json_space [simp]:
  "\<not> is_json_space DQ" "\<not> is_json_space CHR ''}''" "\<not> is_json_space CHR ''{''"
  "\<not> is_json_space CHR '':''" "\<not> is_json_space CHR '',''"
  by (simp_all add: is_json_space_def)

lemma parse_quoted_member [simp]:
  "encodes v e \<Longrightarrow> length v < cap \<Longrightarrow> parse_quoted cap (DQ # e @ DQ # r) = Some (v, r)"
  by (auto simp: parse_quoted_iff)

lemma json_fields_member:
  assumes "member_ok m name val" and "\<not> is_json_space c3"
  shows "json_fields field cap found (m @ c3 # r) =
    (if cstr_of name = field \<and> found \<noteq> None then Inl API_ERR_BAD_REQUEST
     else if cstr_of name = field \<and> length (cstr_of val) + 1 > cap then Inl API_ERR_PAYLOAD_TOO_LARGE
     else let found' = (if cstr_of name = field then Some (cstr_of val) else found) in
       if c3 = CHR '','' then json_fields field cap found' r
       else if c3 = CHR ''}'' then json_fields field cap found' (c3 # r)
       else Inl API_ERR_BAD_REQUEST)"
  using assms
  by (subst json_fields.simps) (auto simp: member_ok_def Let_def)

lemma json_fields_end:
  "spaces w1 \<Longrightarrow> spaces w2 \<Longrightarrow>
   json_fields field cap found (w1 @ CHR ''}'' # w2) =
     (case found of None \<Rightarrow> Inl API_ERR_MISSING_FIELD | Some v \<Rightarrow> Inr v)"
  by (subst json_fields.simps) simp

lemma json_fields_pick: "flat_members ptr ms \<Longrightarrow> json_fields field cap found ptr = pick field cap found ms"
proof (induction arbitrary: found rule: flat_members.induct)
  case (fm_end w1 w2)
  then show ?case by (simp add: json_fields_end)
next
  case (fm_last m name val w)
  then show ?case
    using json_fields_end [of "[]" w] by (simp add: json_fields_member spaces_def)
next
  case (fm_comma m name val r ms)
  then show ?case by (auto simp: json_fields_member)
qed

text \<open>One turn of the loop that gets past the member: what it read.\<close>

lemma json_fields_turn:
  assumes "json_fields field cap found ptr = res"
    and "res \<noteq> Inl API_ERR_BAD_REQUEST" and "res \<noteq> Inl API_ERR_PAYLOAD_TOO_LARGE"
  shows "(\<exists>w1 w2. ptr = w1 @ CHR ''}'' # w2 \<and> spaces w1 \<and> spaces w2) \<or>
    (\<exists>m name val c3 r. ptr = m @ c3 # r \<and> member_ok m name val \<and> (c3 = CHR '','' \<or> c3 = CHR ''}''))"
proof (cases "skip_spaces ptr")
  case Nil
  with assms show ?thesis by (subst (asm) json_fields.simps) simp
next
  case (Cons c cs)
  then obtain w1 where w1: "spaces w1" "ptr = w1 @ c # cs" using skip_spaces_Cons by blast
  show ?thesis
  proof (cases "c = CHR ''}''")
    case True
    with assms Cons have "skip_spaces cs = []"
      by (subst (asm) json_fields.simps) (auto split: if_splits)
    with True w1 show ?thesis by (auto simp: skip_spaces_Nil)
  next
    case False
    from assms(1) Cons False obtain name an c1 cs1 c2 cs2 val av c3 cs3 where
      p: "parse_quoted 128 (c # cs) = Some (name, an)" "skip_spaces an = c1 # cs1" "c1 = CHR '':''"
        "skip_spaces cs1 = c2 # cs2" "parse_quoted 8192 (c2 # cs2) = Some (val, av)"
        "skip_spaces av = c3 # cs3" "c3 = CHR '','' \<or> c3 = CHR ''}''"
      using assms(2,3)
      by (subst (asm) json_fields.simps)
        (auto simp: Let_def split: option.splits list.splits if_splits prod.splits)
    from p(1,5) obtain e1 e2 where e: "encodes name e1" "c # cs = DQ # e1 @ DQ # an" "length name < 128"
      "encodes val e2" "c2 # cs2 = DQ # e2 @ DQ # av" "length val < 8192"
      by (auto simp: parse_quoted_iff)
    from p(2,4,6) obtain w2 w3 w4 where w: "spaces w2" "an = w2 @ c1 # cs1" "spaces w3" "cs1 = w3 @ c2 # cs2"
      "spaces w4" "av = w4 @ c3 # cs3"
      by (metis skip_spaces_Cons)
    let ?m = "w1 @ DQ # e1 @ DQ # w2 @ CHR '':'' # w3 @ DQ # e2 @ DQ # w4"
    have "member_ok ?m name val" unfolding member_ok_def using w1(1) w(1,3,5) e(1,3,4,6) by blast
    moreover have "ptr = ?m @ c3 # cs3" using w1 w e p(3) by simp
    ultimately show ?thesis using p(7) by blast
  qed
qed

lemma json_fields_flat:
  "json_fields field cap found ptr = res \<Longrightarrow> res \<noteq> Inl API_ERR_BAD_REQUEST \<Longrightarrow>
   res \<noteq> Inl API_ERR_PAYLOAD_TOO_LARGE \<Longrightarrow> \<exists>ms. flat_members ptr ms"
proof (induction "length ptr" arbitrary: ptr found rule: less_induct)
  case less
  from json_fields_turn [OF less.prems] consider
    (fin) w1 w2 where "ptr = w1 @ CHR ''}'' # w2" "spaces w1" "spaces w2"
  | (mem) m name val c3 r where "ptr = m @ c3 # r" "member_ok m name val" "c3 = CHR '','' \<or> c3 = CHR ''}''"
    by blast
  then show ?case
  proof cases
    case fin
    then show ?thesis using fm_end by blast
  next
    case mem
    define found' where "found' = (if cstr_of name = field then Some (cstr_of val) else found)"
    have eq: "json_fields field cap found' (if c3 = CHR '','' then r else c3 # r) = res"
      using less.prems mem by (auto simp: json_fields_member found'_def split: if_splits)
    show ?thesis
    proof (cases "c3 = CHR '',''")
      case True
      have "length r < length ptr" using mem by simp
      moreover have "json_fields field cap found' r = res" using eq True by simp
      ultimately obtain ms where "flat_members r ms" using less.hyps less.prems(2,3) by blast
      then show ?thesis using mem True fm_comma by blast
    next
      case False
      with mem eq have "json_fields field cap found' (CHR ''}'' # r) = res" by auto
      then have "skip_spaces r = []"
        using less.prems(2,3)
        by (subst (asm) json_fields.simps) (auto simp: skip_spaces_token [of "[]", simplified] split: if_splits)
      then show ?thesis using mem False fm_last skip_spaces_Nil by blast
    qed
  qed
qed

text \<open>The values of the members with a given name.\<close>

definition named_values :: "cstr \<Rightarrow> (bytes \<times> bytes) list \<Rightarrow> cstr list" where
  "named_values field ms = map (\<lambda>(n, v). cstr_of v) (filter (\<lambda>(n, v). cstr_of n = field) ms)"

lemma pick_found: "pick field cap (Some w) ms = Inr v \<longleftrightarrow> v = w \<and> named_values field ms = []"
  by (induction ms) (auto simp: named_values_def)

lemma pick_Inr: "pick field cap None ms = Inr v \<longleftrightarrow> named_values field ms = [v] \<and> length v < cap"
proof (induction ms)
  case Nil
  then show ?case by (simp add: named_values_def)
next
  case (Cons a ms)
  obtain n x where a: "a = (n, x)" by fastforce
  show ?case
  proof (cases "cstr_of n = field")
    case True
    then show ?thesis using a by (auto simp: pick_found) (auto simp: named_values_def)
  next
    case False
    with Cons show ?thesis using a by (simp add: named_values_def)
  qed
qed

lemma pick_found_not_missing: "pick field cap (Some w) ms \<noteq> Inl API_ERR_MISSING_FIELD"
  by (induction ms) (auto split: if_splits)

lemma pick_missing:
  "pick field cap None ms = Inl API_ERR_MISSING_FIELD \<longleftrightarrow> named_values field ms = []"
proof (induction ms)
  case (Cons a ms)
  obtain n x where a: "a = (n, x)" by fastforce
  with Cons pick_found_not_missing show ?case by (auto simp: named_values_def)
qed (simp add: named_values_def)

lemma json_get_string_fields:
  assumes "0 < cap"
  shows "json_get_string (Some b) (Some f) (Some cap) = res \<and> res \<noteq> Inl API_ERR_BAD_REQUEST \<longleftrightarrow>
    (\<exists>w r. b = w @ CHR ''{'' # r \<and> spaces w \<and> json_fields f cap None r = res) \<and> res \<noteq> Inl API_ERR_BAD_REQUEST"
proof (cases "skip_spaces b")
  case Nil
  then show ?thesis using assms
    by (auto simp: json_get_string_def skip_spaces_Nil spaces_def)
next
  case (Cons c cs)
  then obtain w where w: "spaces w" "b = w @ c # cs" using skip_spaces_Cons by blast
  show ?thesis
  proof
    assume "json_get_string (Some b) (Some f) (Some cap) = res \<and> res \<noteq> Inl API_ERR_BAD_REQUEST"
    then show "(\<exists>w r. b = w @ CHR ''{'' # r \<and> spaces w \<and> json_fields f cap None r = res) \<and> res \<noteq> Inl API_ERR_BAD_REQUEST"
      using Cons w assms by (auto simp: json_get_string_def split: if_splits)
  next
    assume "(\<exists>w r. b = w @ CHR ''{'' # r \<and> spaces w \<and> json_fields f cap None r = res) \<and> res \<noteq> Inl API_ERR_BAD_REQUEST"
    then show "json_get_string (Some b) (Some f) (Some cap) = res \<and> res \<noteq> Inl API_ERR_BAD_REQUEST"
      using assms by (auto simp: json_get_string_def)
  qed
qed

lemma json_get_string_flat:
  assumes "flat_object b ms" and "0 < cap"
  shows "json_get_string (Some b) (Some f) (Some cap) = pick f cap None ms"
  using assms by (auto simp: json_get_string_def flat_object_def json_fields_pick)

lemma json_get_string_flatD:
  assumes "json_get_string (Some b) (Some f) (Some cap) = res"
    and "res \<noteq> Inl API_ERR_BAD_REQUEST" and "res \<noteq> Inl API_ERR_PAYLOAD_TOO_LARGE"
  shows "\<exists>ms. flat_object b ms \<and> res = pick f cap None ms"
proof -
  have "0 < cap" using assms by (auto simp: json_get_string_def intro: gr0I)
  then obtain w r where "b = w @ CHR ''{'' # r" "spaces w" "json_fields f cap None r = res"
    using json_get_string_fields [of cap b f res] assms by blast
  with json_fields_flat [OF _ assms(2,3)] json_fields_pick show ?thesis
    unfolding flat_object_def by metis
qed

lemma json_get_string_length:
  assumes "json_get_string b f out = Inr v"
  shows "length v < 8192" and "nonul v" and "\<exists>cap. out = Some cap \<and> length v < cap"
proof -
  obtain b' f' cap where args: "b = Some b'" "f = Some f'" "out = Some cap"
    using assms by (auto simp: json_get_string_def split: option.splits)
  then obtain ms where "flat_object b' ms" "Inr v = pick f' cap None ms"
    using json_get_string_flatD [of b' f' cap "Inr v"] assms by blast
  then have ms: "flat_object b' ms" "named_values f' ms = [v]" "length v < cap"
    using pick_Inr [of f' cap ms v] by simp_all
  then have "v \<in> set (named_values f' ms)" by simp
  then obtain n x where nx: "(n, x) \<in> set ms" "v = cstr_of x"
    by (auto simp: named_values_def)
  have small: "flat_members r ms \<Longrightarrow> (n, x) \<in> set ms \<Longrightarrow> length x < 8192" for r
    by (induction rule: flat_members.induct) (auto simp: member_ok_def)
  from ms(1) obtain r where "flat_members r ms" by (auto simp: flat_object_def)
  then have "length x < 8192" using small nx by blast
  then show "length v < 8192" using nx length_cstr_of [of x] by simp
  show "nonul v" using nx by simp
  show "\<exists>cap. out = Some cap \<and> length v < cap" using args ms by simp
qed

section \<open>Properties\<close>

text \<open>C28: \<open>json_escape\<close> with a buffer of \<open>cap\<close> bytes returns the
  concatenation of the escape sequences of the source characters exactly when
  no character is a control character without a named escape and the result,
  with its terminator, fits; otherwise it fails, never truncating.\<close>

theorem json_escape_meets_reference:
  "json_escape (Some cap) (Some s) =
     (if list_all escapable s \<and> length (concat (map escape_seq s)) < cap
      then Some (concat (map escape_seq s)) else None)"
  by (simp add: json_escape_ref escape_ref_def)

text \<open>C22: a string that was escaped into a buffer and put between quotes is read
  back unchanged by \<open>parse_quoted\<close>, which stops just after the closing quote.\<close>

theorem json_escape_parse_roundtrip:
  assumes "json_escape (Some cap) (Some s) = Some e" and "length s < n"
  shows "parse_quoted n (DQ # e @ DQ # rest) = Some (s, rest)"
  using json_escape_SomeD(1) [OF assms(1)] assms(2) encodes_escape_ref by simp

theorem json_escape_parse_roundtrip_witness:
  "parse_quoted 128 (DQ # [CHR ''a'', BSLASH, DQ, BSLASH, CHR ''n''] @ DQ # '','') =
     Some ([CHR ''a'', DQ, LF], '','')"
proof -
  have "json_escape (Some 8) (Some [CHR ''a'', DQ, LF]) = Some [CHR ''a'', BSLASH, DQ, BSLASH, CHR ''n'']"
    by code_simp
  then show ?thesis by (rule json_escape_parse_roundtrip) simp
qed

text \<open>C8: soundness and completeness of \<open>json_get_string\<close>: it yields \<open>v\<close>
  exactly when the body is a flat object of the grammar, exactly one member
  carries the field's name, \<open>v\<close> is that member's value and it fits the
  destination.\<close>

theorem json_get_string_iff_grammar:
  "json_get_string (Some b) (Some f) (Some cap) = Inr v \<longleftrightarrow>
     (\<exists>ms. flat_object b ms \<and> named_values f ms = [v] \<and> length v < cap)"
proof
  assume "json_get_string (Some b) (Some f) (Some cap) = Inr v"
  then obtain ms where "flat_object b ms" "pick f cap None ms = Inr v"
    using json_get_string_flatD [of b f cap "Inr v"] by (metis sum.distinct(1))
  then show "\<exists>ms. flat_object b ms \<and> named_values f ms = [v] \<and> length v < cap"
    using pick_Inr [of f cap ms v] by blast
next
  assume "\<exists>ms. flat_object b ms \<and> named_values f ms = [v] \<and> length v < cap"
  then obtain ms where ms: "flat_object b ms" "named_values f ms = [v]" "length v < cap" by blast
  then show "json_get_string (Some b) (Some f) (Some cap) = Inr v"
    using json_get_string_flat [OF ms(1), of cap f] by (simp add: pick_Inr)
qed

text \<open>C29: the field is reported missing exactly when the body is a flat object
  none of whose members carries the field's name.\<close>

theorem json_get_string_missing_iff:
  "json_get_string (Some b) (Some f) (Some (Suc n)) = Inl API_ERR_MISSING_FIELD \<longleftrightarrow>
     (\<exists>ms. flat_object b ms \<and> named_values f ms = [])"
proof
  assume "json_get_string (Some b) (Some f) (Some (Suc n)) = Inl API_ERR_MISSING_FIELD"
  then obtain ms where "flat_object b ms" "pick f (Suc n) None ms = Inl API_ERR_MISSING_FIELD"
    using json_get_string_flatD [of b f "Suc n" "Inl API_ERR_MISSING_FIELD"] by auto
  then show "\<exists>ms. flat_object b ms \<and> named_values f ms = []"
    using pick_missing [of f "Suc n" ms] by blast
next
  assume "\<exists>ms. flat_object b ms \<and> named_values f ms = []"
  then show "json_get_string (Some b) (Some f) (Some (Suc n)) = Inl API_ERR_MISSING_FIELD"
    using json_get_string_flat [of b _ "Suc n" f] by (auto simp: pick_missing)
qed

text \<open>C37: whatever the size of the destination, the value that
  \<open>json_get_string\<close> returns is shorter than the parser's own 8192-byte
  buffer, contains no NUL and fits the destination with its terminator.\<close>

theorem json_get_string_value_bounds:
  assumes "json_get_string b f out = Inr v"
  shows "length v < 8192 \<and> nonul v \<and> (\<exists>cap. out = Some cap \<and> length v < cap)"
  using json_get_string_length [OF assms] by blast

theorem json_get_string_value_bounds_witness:
  "length ''hi'' < 8192 \<and> nonul ''hi'' \<and> (\<exists>cap. Some 60001 = Some cap \<and> length ''hi'' < cap)"
proof -
  have "json_get_string (Some (CHR ''{'' # DQ # ''v'' @ DQ # '':'' @ DQ # ''hi'' @ DQ # ''}''))
      (Some ''v'') (Some 60001) = Inr ''hi''"
    by code_simp
  then show ?thesis by (rule json_get_string_value_bounds)
qed

end
