(* ===== verification/Store.thy ===== *)
theory Store
  imports Json "HOL-Library.Char_ord" "HOL-Library.List_Lexorder"
begin

text \<open>
  The store of \<open>src/store_sqlite.c\<close>.  SQLite is not part of the sources: it is
  the parameter \<open>sq\<close> of the operations, a record of the library calls they
  make.  The operations pass it the SQL text of the source and the bound values,
  and react to return codes, rows, change counts and row ids as the source does.
  What SQLite documents about these statements is the locale
  \<open>sqlite_laws\<close> of the theory \<open>Store_Laws\<close>.

  A store pointer is an \<open>option\<close> (\<open>None\<close> for NULL); each operation is one
  critical section under the store's mutex and returns the store it leaves.
\<close>

section \<open>The SQLite interface\<close>

datatype sqlval = SNull | SInt int | SText bytes

text \<open>Stepping a statement to its end: the rows delivered by \<open>SQLITE_ROW\<close>, the
  first other return code, the database after it, and what
  \<open>sqlite3_changes\<close> and \<open>sqlite3_last_insert_rowid\<close> then report.\<close>

record 'db sql_outcome =
  so_rows :: "sqlval list list"
  so_rc :: int
  so_db :: 'db
  so_changes :: int
  so_rowid :: int

record 'db sqlite3 =
  sq_open :: "cstr \<Rightarrow> int \<times> 'db"
  sq_errmsg :: "'db \<Rightarrow> cstr"
  sq_exec :: "'db \<Rightarrow> cstr \<Rightarrow> int \<times> 'db"
  sq_close :: "'db \<Rightarrow> 'db"
  sq_prepare :: "'db \<Rightarrow> cstr \<Rightarrow> int"
  sq_run :: "'db \<Rightarrow> cstr \<Rightarrow> sqlval list \<Rightarrow> 'db sql_outcome"
  sq_column_text :: "sqlval \<Rightarrow> bytes option"
  sq_column_int64 :: "sqlval \<Rightarrow> int"

abbreviation (input) SQLITE_OK :: int where "SQLITE_OK \<equiv> 0"
abbreviation (input) SQLITE_ROW :: int where "SQLITE_ROW \<equiv> 100"
abbreviation (input) SQLITE_DONE :: int where "SQLITE_DONE \<equiv> 101"

text \<open>The return code of the first \<open>sqlite3_step\<close>, and a column of a row.\<close>

definition step_rc :: "'db sql_outcome \<Rightarrow> int" where
  "step_rc r = (if so_rows r = [] then so_rc r else SQLITE_ROW)"

definition col :: "sqlval list \<Rightarrow> nat \<Rightarrow> sqlval" where
  "col row i = (if i < length row then row ! i else SNull)"

section \<open>Limits and validation\<close>

abbreviation (input) STORE_MAX_KEY_LEN :: nat where "STORE_MAX_KEY_LEN \<equiv> 128"
abbreviation (input) STORE_MAX_VALUE_LEN :: nat where "STORE_MAX_VALUE_LEN \<equiv> 60000"
abbreviation (input) STORE_MAX_TITLE_LEN :: nat where "STORE_MAX_TITLE_LEN \<equiv> 200"
abbreviation (input) STORE_MAX_BODY_LEN :: nat where "STORE_MAX_BODY_LEN \<equiv> 8192"
abbreviation (input) STORE_MAX_LIST :: int where "STORE_MAX_LIST \<equiv> 100"

definition key_char_ok :: "char \<Rightarrow> bool" where
  "key_char_ok c \<longleftrightarrow>
     (65 \<le> uchar c \<and> uchar c \<le> 90) \<or> (97 \<le> uchar c \<and> uchar c \<le> 122) \<or>
     (48 \<le> uchar c \<and> uchar c \<le> 57) \<or> c = CHR ''.'' \<or> c = CHR ''_'' \<or> c = CHR ''-''"

definition store_validate_key :: "cstr option \<Rightarrow> ApiError" where
  "store_validate_key key =
     (case key of
        None \<Rightarrow> API_ERR_INVALID_KEY
      | Some k \<Rightarrow>
          if k = [] then API_ERR_INVALID_KEY
          else if length k > STORE_MAX_KEY_LEN then API_ERR_INVALID_KEY
          else if list_all key_char_ok k then API_OK else API_ERR_INVALID_KEY)"

definition validate_value :: "cstr option \<Rightarrow> ApiError" where
  "validate_value val =
     (case val of
        None \<Rightarrow> API_ERR_MISSING_FIELD
      | Some v \<Rightarrow> if length v > STORE_MAX_VALUE_LEN then API_ERR_PAYLOAD_TOO_LARGE else API_OK)"

definition validate_note_fields :: "cstr option \<Rightarrow> cstr option \<Rightarrow> ApiError" where
  "validate_note_fields title body =
     (case (title, body) of
        (Some t, Some b) \<Rightarrow>
          if length t = 0 \<or> length t > STORE_MAX_TITLE_LEN then API_ERR_BAD_REQUEST
          else if length b > STORE_MAX_BODY_LEN then API_ERR_PAYLOAD_TOO_LARGE
          else API_OK
      | _ \<Rightarrow> API_ERR_MISSING_FIELD)"

section \<open>Opening and closing\<close>

definition set_err :: "outbuf \<Rightarrow> cstr \<Rightarrow> cstr" where
  "set_err errbuf msg = (case errbuf of None \<Rightarrow> [] | Some cap \<Rightarrow> if cap = 0 then [] else snprintf_buf cap msg)"

text \<open>\<open>exec_checked\<close>: \<open>True\<close> is the return value 0.\<close>

definition exec_checked :: "'db sqlite3 \<Rightarrow> 'db \<Rightarrow> cstr \<Rightarrow> bool \<times> 'db" where
  "exec_checked sq db sql = (case sq_exec sq db sql of (rc, db') \<Rightarrow> (rc = SQLITE_OK, db'))"

text \<open>The statements joined by \<open>||\<close>: stop at the first that fails.\<close>

fun exec_all :: "'db sqlite3 \<Rightarrow> 'db \<Rightarrow> cstr list \<Rightarrow> bool \<times> 'db" where
  "exec_all sq db [] = (True, db)"
| "exec_all sq db (sql # sqls) =
     (case exec_checked sq db sql of
        (False, db') \<Rightarrow> (False, db')
      | (True, db') \<Rightarrow> exec_all sq db' sqls)"

definition init_sqls :: "cstr list" where
  "init_sqls =
     [''PRAGMA journal_mode=WAL;'',
      ''PRAGMA synchronous=NORMAL;'',
      ''PRAGMA foreign_keys=ON;'',
      ''CREATE TABLE IF NOT EXISTS kv(key TEXT PRIMARY KEY, value TEXT NOT NULL, '' @
      ''updated_at INTEGER NOT NULL);'',
      ''CREATE TABLE IF NOT EXISTS notes(id INTEGER PRIMARY KEY AUTOINCREMENT, '' @
      ''title TEXT NOT NULL, body TEXT NOT NULL, created_at INTEGER NOT NULL, '' @
      ''updated_at INTEGER NOT NULL);'']"

text \<open>The error message left in \<open>errbuf\<close>, or the open store.  The flags are the
  outcomes of \<open>calloc\<close> and \<open>pthread_mutex_init\<close>.\<close>

definition store_open :: "'db sqlite3 \<Rightarrow> bool \<Rightarrow> bool \<Rightarrow> cstr option \<Rightarrow> outbuf \<Rightarrow> cstr + 'db" where
  "store_open sq calloc_ok mutex_ok path errbuf =
     (if path = None \<or> path = Some [] then Inl (set_err errbuf ''db path is required'')
      else if \<not> calloc_ok then Inl (set_err errbuf ''out of memory'')
      else if \<not> mutex_ok then Inl (set_err errbuf ''mutex init failed'')
      else
        (case sq_open sq (the path) of (rc, db) \<Rightarrow>
           if rc \<noteq> SQLITE_OK then Inl (set_err errbuf (''sqlite open failed: '' @ sq_errmsg sq db))
           else
             (case exec_all sq db init_sqls of
                (False, db') \<Rightarrow> Inl (set_err errbuf (''sqlite init failed: '' @ sq_errmsg sq db'))
              | (True, db') \<Rightarrow> Inr db')))"

text \<open>\<open>store_close\<close>: checkpoint, then close; the return codes are not looked at.  The
  result is the database as the closed handle leaves it.\<close>

definition store_close :: "'db sqlite3 \<Rightarrow> 'db option \<Rightarrow> 'db option" where
  "store_close sq store =
     (case store of
        None \<Rightarrow> None
      | Some db \<Rightarrow> Some (sq_close sq (snd (sq_exec sq db ''PRAGMA wal_checkpoint(TRUNCATE);''))))"

section \<open>Keys and values\<close>

definition kv_put_sql :: cstr where
  "kv_put_sql =
     ''INSERT INTO kv(key,value,updated_at) VALUES(?,?,?) '' @
     ''ON CONFLICT(key) DO UPDATE SET value=excluded.value, updated_at=excluded.updated_at;''"

definition kv_get_sql :: cstr where
  "kv_get_sql = ''SELECT value FROM kv WHERE key=?;''"

definition kv_del_sql :: cstr where
  "kv_del_sql = ''DELETE FROM kv WHERE key=?;''"

definition kv_list_sql :: cstr where
  "kv_list_sql = ''SELECT key,value FROM kv WHERE key LIKE ? ESCAPE '' @
     [CHR 0x27, BSLASH, CHR 0x27] @ '' ORDER BY key LIMIT ?;''"

definition store_kv_put ::
  "'db sqlite3 \<Rightarrow> int \<Rightarrow> 'db option \<Rightarrow> cstr option \<Rightarrow> cstr option \<Rightarrow> ApiError \<times> 'db option" where
  "store_kv_put sq now store key val =
     (case store of
        None \<Rightarrow> (API_ERR_INTERNAL, store)
      | Some db \<Rightarrow>
          if store_validate_key key \<noteq> API_OK then (store_validate_key key, store)
          else if validate_value val \<noteq> API_OK then (validate_value val, store)
          else if sq_prepare sq db kv_put_sql \<noteq> SQLITE_OK then (API_ERR_INTERNAL, store)
          else
            (let r = sq_run sq db kv_put_sql [SText (the key), SText (the val), SInt now]
             in (if step_rc r = SQLITE_DONE then API_OK else API_ERR_INTERNAL, Some (so_db r))))"

definition store_kv_get ::
  "'db sqlite3 \<Rightarrow> 'db option \<Rightarrow> cstr option \<Rightarrow> outbuf \<Rightarrow> (ApiError + cstr) \<times> 'db option" where
  "store_kv_get sq store key value_out =
     (case (store, value_out) of
        (Some db, Some value_cap) \<Rightarrow>
          if value_cap = 0 then (Inl API_ERR_INTERNAL, store)
          else if store_validate_key key \<noteq> API_OK then (Inl API_ERR_INVALID_KEY, store)
          else if sq_prepare sq db kv_get_sql \<noteq> SQLITE_OK then (Inl API_ERR_INTERNAL, store)
          else
            (let r = sq_run sq db kv_get_sql [SText (the key)]
             in (case so_rows r of
                   row # _ \<Rightarrow>
                     (case sq_column_text sq (col row 0) of
                        None \<Rightarrow> Inl API_ERR_INTERNAL
                      | Some text \<Rightarrow>
                          if length text + 1 > value_cap then Inl API_ERR_PAYLOAD_TOO_LARGE
                          else Inr (cstr_of text))
                 | [] \<Rightarrow> if so_rc r \<noteq> SQLITE_DONE then Inl API_ERR_INTERNAL else Inl API_ERR_NOT_FOUND,
                 Some (so_db r)))
      | _ \<Rightarrow> (Inl API_ERR_INTERNAL, store))"

definition store_kv_del :: "'db sqlite3 \<Rightarrow> 'db option \<Rightarrow> cstr option \<Rightarrow> ApiError \<times> 'db option" where
  "store_kv_del sq store key =
     (case store of
        None \<Rightarrow> (API_ERR_INTERNAL, store)
      | Some db \<Rightarrow>
          if store_validate_key key \<noteq> API_OK then (API_ERR_INVALID_KEY, store)
          else if sq_prepare sq db kv_del_sql \<noteq> SQLITE_OK then (API_ERR_INTERNAL, store)
          else
            (let r = sq_run sq db kv_del_sql [SText (the key)]
             in (if step_rc r \<noteq> SQLITE_DONE then API_ERR_INTERNAL
                 else if so_changes r > 0 then API_OK else API_ERR_NOT_FOUND, Some (so_db r))))"

text \<open>Fragments of the format strings: a string member and a number member.\<close>

definition jstr :: "cstr \<Rightarrow> cstr \<Rightarrow> cstr" where
  "jstr name val = DQ # name @ DQ # '':'' @ DQ # val @ [DQ]"

definition jnum :: "cstr \<Rightarrow> cstr \<Rightarrow> cstr" where
  "jnum name val = DQ # name @ DQ # '':'' @ val"

definition kv_item :: "cstr \<Rightarrow> cstr \<Rightarrow> cstr" where
  "kv_item k v = ''{'' @ jstr ''key'' k @ '','' @ jstr ''value'' v @ ''}''"

text \<open>The row loop of \<open>store_kv_list\<close>; \<open>out\<close> is what \<open>out_json\<close> holds.\<close>

fun kv_list_rows :: "'db sqlite3 \<Rightarrow> nat \<Rightarrow> bool \<Rightarrow> cstr \<Rightarrow> sqlval list list \<Rightarrow> ApiError \<times> cstr" where
  "kv_list_rows sq out_cap first out [] = (API_OK, out)"
| "kv_list_rows sq out_cap first out (row # rows) =
     (case (sq_column_text sq (col row 0), sq_column_text sq (col row 1)) of
        (Some k, Some v) \<Rightarrow>
          (case (json_escape (Some (STORE_MAX_KEY_LEN * 2 + 1)) (Some (cstr_of k)),
                 json_escape (Some (STORE_MAX_VALUE_LEN + 1024)) (Some (cstr_of v))) of
             (Some ek, Some ev) \<Rightarrow>
               (let item = (if first then [] else '','') @ kv_item ek ev
                in if length item \<ge> out_cap - length out then (API_ERR_PAYLOAD_TOO_LARGE, out)
                   else kv_list_rows sq out_cap False (out @ item) rows)
           | _ \<Rightarrow> (API_ERR_INTERNAL, out))
      | _ \<Rightarrow> (API_ERR_INTERNAL, out))"

definition store_kv_list ::
  "'db sqlite3 \<Rightarrow> 'db option \<Rightarrow> cstr option \<Rightarrow> int \<Rightarrow> outbuf \<Rightarrow> (ApiError + cstr) \<times> 'db option" where
  "store_kv_list sq store pfx limit out_json =
     (case (store, out_json, pfx) of
        (Some db, Some out_cap, Some p) \<Rightarrow>
          if limit \<le> 0 \<or> limit > STORE_MAX_LIST then (Inl API_ERR_INVALID_QUERY, store)
          else if sq_prepare sq db kv_list_sql \<noteq> SQLITE_OK then (Inl API_ERR_INTERNAL, store)
          else if out_cap < 3 then (Inl API_ERR_INTERNAL, store)
          else
            (let pat = snprintf_buf (STORE_MAX_KEY_LEN + 2) (p @ ''%'');
                 r = sq_run sq db kv_list_sql [SText pat, SInt limit]
             in (case kv_list_rows sq out_cap True ''['' (so_rows r) of
                   (result, out) \<Rightarrow>
                     if result \<noteq> API_OK then Inl result
                     else if so_rc r \<noteq> SQLITE_DONE then Inl API_ERR_INTERNAL
                     else if length out + 2 > out_cap then Inl API_ERR_PAYLOAD_TOO_LARGE
                     else Inr (out @ '']''),
                 Some (so_db r)))
      | _ \<Rightarrow> (Inl API_ERR_INTERNAL, store))"

section \<open>Notes\<close>

definition note_create_sql :: cstr where
  "note_create_sql = ''INSERT INTO notes(title,body,created_at,updated_at) VALUES(?,?,?,?);''"

definition note_count_sql :: cstr where
  "note_count_sql = ''SELECT COUNT(*) FROM notes;''"

definition kv_count_sql :: cstr where
  "kv_count_sql = ''SELECT COUNT(*) FROM kv;''"

definition note_list_sql :: cstr where
  "note_list_sql = ''SELECT id,title,body,created_at,updated_at FROM notes ORDER BY id LIMIT ? OFFSET ?;''"

definition note_get_sql :: cstr where
  "note_get_sql = ''SELECT id,title,body,created_at,updated_at FROM notes WHERE id=?;''"

definition note_update_sql :: cstr where
  "note_update_sql = ''UPDATE notes SET title=?,body=?,updated_at=? WHERE id=?;''"

definition note_del_sql :: cstr where
  "note_del_sql = ''DELETE FROM notes WHERE id=?;''"

definition store_note_create ::
  "'db sqlite3 \<Rightarrow> int \<Rightarrow> 'db option \<Rightarrow> cstr option \<Rightarrow> cstr option \<Rightarrow> (ApiError + int) \<times> 'db option" where
  "store_note_create sq now store title body =
     (case store of
        None \<Rightarrow> (Inl API_ERR_INTERNAL, store)
      | Some db \<Rightarrow>
          if validate_note_fields title body \<noteq> API_OK
          then (Inl (validate_note_fields title body), store)
          else if sq_prepare sq db note_create_sql \<noteq> SQLITE_OK then (Inl API_ERR_INTERNAL, store)
          else
            (let r = sq_run sq db note_create_sql
                       [SText (the title), SText (the body), SInt now, SInt now]
             in (if step_rc r \<noteq> SQLITE_DONE then Inl API_ERR_INTERNAL else Inr (so_rowid r),
                 Some (so_db r))))"

definition note_item :: "int \<Rightarrow> cstr \<Rightarrow> cstr \<Rightarrow> int \<Rightarrow> int \<Rightarrow> cstr" where
  "note_item nid et eb created updated =
     ''{'' @ jnum ''id'' (show_int nid) @ '','' @ jstr ''title'' et @ '','' @ jstr ''body'' eb @ '','' @
     jnum ''created_at'' (show_int created) @ '','' @ jnum ''updated_at'' (show_int updated) @ ''}''"

text \<open>\<open>note_row_to_json\<close>: the buffer with the row appended, or the error.\<close>

definition note_row_to_json :: "'db sqlite3 \<Rightarrow> sqlval list \<Rightarrow> nat \<Rightarrow> cstr \<Rightarrow> ApiError + cstr" where
  "note_row_to_json sq row out_cap out =
     (case (sq_column_text sq (col row 1), sq_column_text sq (col row 2)) of
        (Some title, Some body) \<Rightarrow>
          (case (json_escape (Some (STORE_MAX_TITLE_LEN * 2 + 1)) (Some (cstr_of title)),
                 json_escape (Some (STORE_MAX_BODY_LEN * 2 + 1)) (Some (cstr_of body))) of
             (Some et, Some eb) \<Rightarrow>
               (let item = note_item (sq_column_int64 sq (col row 0)) et eb
                             (sq_column_int64 sq (col row 3)) (sq_column_int64 sq (col row 4))
                in if length item \<ge> out_cap - length out then Inl API_ERR_PAYLOAD_TOO_LARGE
                   else Inr (out @ item))
           | _ \<Rightarrow> Inl API_ERR_INTERNAL)
      | _ \<Rightarrow> Inl API_ERR_INTERNAL)"

fun note_list_rows :: "'db sqlite3 \<Rightarrow> nat \<Rightarrow> bool \<Rightarrow> cstr \<Rightarrow> sqlval list list \<Rightarrow> ApiError + cstr" where
  "note_list_rows sq out_cap first out [] = Inr out"
| "note_list_rows sq out_cap first out (row # rows) =
     (if \<not> first \<and> length out + 1 \<ge> out_cap then Inl API_ERR_PAYLOAD_TOO_LARGE
      else
        (case note_row_to_json sq row out_cap (if first then out else out @ '','') of
           Inl e \<Rightarrow> Inl e
         | Inr out' \<Rightarrow> note_list_rows sq out_cap False out' rows))"

text \<open>A \<open>COUNT\<close> query: a step that fails leaves the count at 0.\<close>

definition count_of :: "'db sqlite3 \<Rightarrow> 'db sql_outcome \<Rightarrow> int" where
  "count_of sq r = (case so_rows r of row # _ \<Rightarrow> sq_column_int64 sq (col row 0) | [] \<Rightarrow> 0)"

text \<open>\<open>total_out\<close> is the variable behind the last argument (\<open>None\<close> a null pointer);
  its value afterwards is the second component of the result.\<close>

definition store_note_list ::
  "'db sqlite3 \<Rightarrow> 'db option \<Rightarrow> int \<Rightarrow> int \<Rightarrow> outbuf \<Rightarrow> int option \<Rightarrow>
   (ApiError + cstr) \<times> int option \<times> 'db option" where
  "store_note_list sq store limit offset out_json total_out =
     (case (store, out_json, total_out) of
        (Some db, Some out_cap, Some _) \<Rightarrow>
          if limit \<le> 0 \<or> limit > STORE_MAX_LIST \<or> offset < 0 then (Inl API_ERR_INVALID_QUERY, total_out, store)
          else if sq_prepare sq db note_count_sql \<noteq> SQLITE_OK then (Inl API_ERR_INTERNAL, total_out, store)
          else
            (let rc = sq_run sq db note_count_sql [];
                 total = count_of sq rc;
                 db1 = so_db rc
             in if sq_prepare sq db1 note_list_sql \<noteq> SQLITE_OK then (Inl API_ERR_INTERNAL, Some total, Some db1)
                else if out_cap < 16 then (Inl API_ERR_INTERNAL, Some total, Some db1)
                else
                  (let start = ''{'' @ DQ # ''items'' @ DQ # '':['';
                       r = sq_run sq db1 note_list_sql [SInt limit, SInt offset]
                   in if length start \<ge> out_cap then (Inl API_ERR_PAYLOAD_TOO_LARGE, Some total, Some db1)
                      else
                        ((case note_list_rows sq out_cap True start (so_rows r) of
                            Inl e \<Rightarrow> Inl e
                          | Inr out \<Rightarrow>
                              if so_rc r \<noteq> SQLITE_DONE then Inl API_ERR_INTERNAL
                              else
                                (let tail = ''],'' @ jnum ''total'' (show_int total) @ ''}''
                                 in if length tail \<ge> out_cap - length out
                                    then Inl API_ERR_PAYLOAD_TOO_LARGE else Inr (out @ tail))),
                         Some total, Some (so_db r))))
      | _ \<Rightarrow> (Inl API_ERR_INTERNAL, total_out, store))"

definition store_note_get ::
  "'db sqlite3 \<Rightarrow> 'db option \<Rightarrow> int \<Rightarrow> outbuf \<Rightarrow> (ApiError + cstr) \<times> 'db option" where
  "store_note_get sq store nid out_json =
     (case (store, out_json) of
        (Some db, Some out_cap) \<Rightarrow>
          if nid \<le> 0 then (Inl API_ERR_INVALID_ID, store)
          else if sq_prepare sq db note_get_sql \<noteq> SQLITE_OK then (Inl API_ERR_INTERNAL, store)
          else
            (let r = sq_run sq db note_get_sql [SInt nid]
             in (case so_rows r of
                   row # _ \<Rightarrow> note_row_to_json sq row out_cap []
                 | [] \<Rightarrow> if so_rc r \<noteq> SQLITE_DONE then Inl API_ERR_INTERNAL else Inl API_ERR_NOT_FOUND,
                 Some (so_db r)))
      | _ \<Rightarrow> (Inl API_ERR_INTERNAL, store))"

definition store_note_update ::
  "'db sqlite3 \<Rightarrow> int \<Rightarrow> 'db option \<Rightarrow> int \<Rightarrow> cstr option \<Rightarrow> cstr option \<Rightarrow> ApiError \<times> 'db option" where
  "store_note_update sq now store nid title body =
     (case store of
        None \<Rightarrow> (API_ERR_INTERNAL, store)
      | Some db \<Rightarrow>
          if nid \<le> 0 then (API_ERR_INVALID_ID, store)
          else if validate_note_fields title body \<noteq> API_OK then (validate_note_fields title body, store)
          else if sq_prepare sq db note_update_sql \<noteq> SQLITE_OK then (API_ERR_INTERNAL, store)
          else
            (let r = sq_run sq db note_update_sql [SText (the title), SText (the body), SInt now, SInt nid]
             in (if step_rc r \<noteq> SQLITE_DONE then API_ERR_INTERNAL
                 else if so_changes r > 0 then API_OK else API_ERR_NOT_FOUND, Some (so_db r))))"

definition store_note_del :: "'db sqlite3 \<Rightarrow> 'db option \<Rightarrow> int \<Rightarrow> ApiError \<times> 'db option" where
  "store_note_del sq store nid =
     (case store of
        None \<Rightarrow> (API_ERR_INTERNAL, store)
      | Some db \<Rightarrow>
          if nid \<le> 0 then (API_ERR_INVALID_ID, store)
          else if sq_prepare sq db note_del_sql \<noteq> SQLITE_OK then (API_ERR_INTERNAL, store)
          else
            (let r = sq_run sq db note_del_sql [SInt nid]
             in (if step_rc r \<noteq> SQLITE_DONE then API_ERR_INTERNAL
                 else if so_changes r > 0 then API_OK else API_ERR_NOT_FOUND, Some (so_db r))))"

text \<open>\<open>store_counts\<close>: the key count and the note count.\<close>

definition store_counts :: "'db sqlite3 \<Rightarrow> 'db option \<Rightarrow> (ApiError + int \<times> int) \<times> 'db option" where
  "store_counts sq store =
     (case store of
        None \<Rightarrow> (Inl API_ERR_INTERNAL, store)
      | Some db \<Rightarrow>
          if sq_prepare sq db kv_count_sql \<noteq> SQLITE_OK then (Inl API_ERR_INTERNAL, store)
          else
            (let r1 = sq_run sq db kv_count_sql []; db1 = so_db r1
             in if sq_prepare sq db1 note_count_sql \<noteq> SQLITE_OK then (Inl API_ERR_INTERNAL, Some db1)
                else
                  (let r2 = sq_run sq db1 note_count_sql []
                   in (Inr (count_of sq r1, count_of sq r2), Some (so_db r2)))))"

end
