(* ===== verification/Conn_Queue.thy ===== *)
theory Conn_Queue
  imports Prelude
begin

text \<open>
  The bounded connection queue of \<open>src/server.c\<close>: a ring buffer of file
  descriptors under a mutex with two condition variables.  Each operation of the
  model is one critical section.  A condition variable is the list of the threads
  asleep on it: \<open>pthread_cond_wait\<close> adds the caller, \<open>pthread_cond_signal\<close>
  removes one thread, chosen by the scheduler (the argument \<open>chosen\<close>), and
  \<open>pthread_cond_broadcast\<close> removes all.  One evaluation of the loop condition of
  \<open>queue_pop\<close> under the mutex is one call of the model; a caller that is told to
  wait is asleep from then on, and only a thread that was woken calls again.

  The contract the rest of the server relies on is the locale \<open>bounded_fifo\<close>;
  the ring buffer interprets it.
\<close>

section \<open>Condition variables\<close>

type_synonym cond = "nat list"

definition cond_wait :: "nat \<Rightarrow> cond \<Rightarrow> cond" where
  "cond_wait self c = c @ [self]"

definition cond_signal :: "nat \<Rightarrow> cond \<Rightarrow> cond" where
  "cond_signal chosen c =
     (if c = [] then [] else take (chosen mod length c) c @ drop (Suc (chosen mod length c)) c)"

definition cond_broadcast :: "cond \<Rightarrow> cond" where
  "cond_broadcast c = []"

lemma cond_signal_Nil [simp]: "cond_signal chosen [] = []"
  by (simp add: cond_signal_def)

lemma cond_signal_wakes_one:
  assumes "c \<noteq> []"
  obtains us i vs where "c = us @ i # vs" "cond_signal chosen c = us @ vs"
proof -
  have "chosen mod length c < length c" using assms by simp
  then have "c = take (chosen mod length c) c @ c ! (chosen mod length c) # drop (Suc (chosen mod length c)) c"
    by (rule id_take_nth_drop)
  moreover have "cond_signal chosen c = take (chosen mod length c) c @ drop (Suc (chosen mod length c)) c"
    using assms by (simp add: cond_signal_def)
  ultimately show thesis using that by blast
qed

lemma length_cond_signal: "length (cond_signal chosen c) = length c - 1"
  by (cases "c = []") (auto elim!: cond_signal_wakes_one [where chosen = chosen])

section \<open>The ring buffer\<close>

record ConnQueue =
  q_fds :: "int list"
  q_capacity :: nat
  q_head :: nat
  q_tail :: nat
  q_count :: nat
  q_closed :: bool
  q_not_empty :: cond
  q_not_full :: cond

text \<open>\<open>queue_init\<close>: the flags are the outcomes of \<open>calloc\<close>,
  \<open>pthread_mutex_init\<close> and the two \<open>pthread_cond_init\<close> calls;
  \<open>None\<close> is the return value -1, with the array freed.\<close>

definition queue_init :: "bool \<Rightarrow> bool \<Rightarrow> bool \<Rightarrow> bool \<Rightarrow> int \<Rightarrow> ConnQueue option" where
  "queue_init calloc_ok mutex_ok not_empty_ok not_full_ok capacity =
     (if capacity \<le> 0 then None
      else if \<not> calloc_ok then None
      else if \<not> mutex_ok then None
      else if \<not> not_empty_ok then None
      else if \<not> not_full_ok then None
      else Some \<lparr>q_fds = replicate (nat capacity) 0, q_capacity = nat capacity, q_head = 0,
                 q_tail = 0, q_count = 0, q_closed = False, q_not_empty = [], q_not_full = []\<rparr>)"

text \<open>\<open>queue_destroy\<close>: the array is freed and the pointer cleared.\<close>

definition queue_destroy :: "ConnQueue \<Rightarrow> ConnQueue" where
  "queue_destroy queue = queue\<lparr>q_fds := []\<rparr>"

definition queue_close :: "ConnQueue \<Rightarrow> ConnQueue" where
  "queue_close queue = queue\<lparr>q_closed := True, q_not_empty := cond_broadcast (q_not_empty queue),
     q_not_full := cond_broadcast (q_not_full queue)\<rparr>"

text \<open>\<open>True\<close> is the return value 0.\<close>

definition queue_try_push :: "nat \<Rightarrow> ConnQueue \<Rightarrow> int \<Rightarrow> bool \<times> ConnQueue" where
  "queue_try_push chosen queue fd =
     (if q_closed queue then (False, queue)
      else if q_count queue = q_capacity queue then (False, queue)
      else (True, queue\<lparr>q_fds := (q_fds queue)[q_tail queue := fd],
                        q_tail := (q_tail queue + 1) mod q_capacity queue,
                        q_count := q_count queue + 1,
                        q_not_empty := cond_signal chosen (q_not_empty queue)\<rparr>))"

datatype 'a pop_result = PopWait | PopClosed | PopFd 'a

text \<open>\<open>self\<close> is the calling thread.  No thread waits on \<open>not_full\<close>, so the choice
  of the thread that its signal wakes is immaterial.\<close>

definition queue_pop :: "nat \<Rightarrow> ConnQueue \<Rightarrow> int pop_result \<times> ConnQueue" where
  "queue_pop self queue =
     (if q_count queue = 0 \<and> \<not> q_closed queue
      then (PopWait, queue\<lparr>q_not_empty := cond_wait self (q_not_empty queue)\<rparr>)
      else if q_count queue = 0 \<and> q_closed queue then (PopClosed, queue)
      else (PopFd (q_fds queue ! q_head queue),
            queue\<lparr>q_head := (q_head queue + 1) mod q_capacity queue,
                  q_count := q_count queue - 1,
                  q_not_full := cond_signal 0 (q_not_full queue)\<rparr>))"

section \<open>The contract\<close>

text \<open>A run of operations by any number of threads, in the order in which they
  enter the critical section: the elements accepted, the elements handed out.
  A push carries the scheduler's choice of the thread to wake, a pop its caller.\<close>

datatype 'a queue_op = OpPush nat 'a | OpPop nat | OpClose

fun run_queue ::
  "(nat \<Rightarrow> 'q \<Rightarrow> 'a \<Rightarrow> bool \<times> 'q) \<Rightarrow> (nat \<Rightarrow> 'q \<Rightarrow> 'a pop_result \<times> 'q) \<Rightarrow> ('q \<Rightarrow> 'q) \<Rightarrow>
   'a queue_op list \<Rightarrow> 'q \<Rightarrow> 'a list \<times> 'a list \<times> 'q" where
  "run_queue push pop close [] q = ([], [], q)"
| "run_queue push pop close (OpPush chosen x # ops) q =
     (case push chosen q x of (ok, q1) \<Rightarrow>
        (case run_queue push pop close ops q1 of (acc, out, q2) \<Rightarrow> (if ok then x # acc else acc, out, q2)))"
| "run_queue push pop close (OpPop self # ops) q =
     (case pop self q of (r, q1) \<Rightarrow>
        (case run_queue push pop close ops q1 of (acc, out, q2) \<Rightarrow>
           (acc, case r of PopFd x \<Rightarrow> x # out | _ \<Rightarrow> out, q2)))"
| "run_queue push pop close (OpClose # ops) q = run_queue push pop close ops (close q)"

locale bounded_fifo =
  fixes push :: "nat \<Rightarrow> 'q \<Rightarrow> 'a \<Rightarrow> bool \<times> 'q"
    and pop :: "nat \<Rightarrow> 'q \<Rightarrow> 'a pop_result \<times> 'q"
    and close :: "'q \<Rightarrow> 'q"
    and contents :: "'q \<Rightarrow> 'a list"
    and closed :: "'q \<Rightarrow> bool"
    and limit :: "'q \<Rightarrow> nat"
    and asleep :: "'q \<Rightarrow> cond"
    and invar :: "'q \<Rightarrow> bool"
  assumes push_ok: "invar q \<Longrightarrow> \<not> closed q \<Longrightarrow> length (contents q) < limit q \<Longrightarrow>
      \<exists>q'. push chosen q x = (True, q') \<and> invar q' \<and> contents q' = contents q @ [x] \<and>
        closed q' = closed q \<and> limit q' = limit q \<and> asleep q' = cond_signal chosen (asleep q)"
    and push_refused: "invar q \<Longrightarrow> closed q \<or> length (contents q) = limit q \<Longrightarrow> push chosen q x = (False, q)"
    and pop_some: "invar q \<Longrightarrow> contents q = x # xs \<Longrightarrow>
      \<exists>q'. pop self q = (PopFd x, q') \<and> invar q' \<and> contents q' = xs \<and> closed q' = closed q \<and>
        limit q' = limit q \<and> asleep q' = asleep q"
    and pop_closed: "invar q \<Longrightarrow> contents q = [] \<Longrightarrow> closed q \<Longrightarrow> pop self q = (PopClosed, q)"
    and pop_wait: "invar q \<Longrightarrow> contents q = [] \<Longrightarrow> \<not> closed q \<Longrightarrow>
      \<exists>q'. pop self q = (PopWait, q') \<and> invar q' \<and> contents q' = [] \<and> \<not> closed q' \<and>
        limit q' = limit q \<and> asleep q' = asleep q @ [self]"
    and close_ok: "invar q \<Longrightarrow> invar (close q) \<and> contents (close q) = contents q \<and> closed (close q) \<and>
      limit (close q) = limit q \<and> asleep (close q) = []"
    and within_limit: "invar q \<Longrightarrow> length (contents q) \<le> limit q"
begin

lemma push_cases:
  assumes "invar q" and "push chosen q x = (ok, q')"
  shows "invar q'" and "contents q' = (if ok then contents q @ [x] else contents q)"
    and "closed q' = closed q" and "limit q' = limit q"
    and "ok \<longleftrightarrow> \<not> closed q \<and> length (contents q) < limit q"
    and "asleep q' = (if ok then cond_signal chosen (asleep q) else asleep q)"
proof -
  have "invar q' \<and> contents q' = (if ok then contents q @ [x] else contents q) \<and> closed q' = closed q \<and>
      limit q' = limit q \<and> (ok \<longleftrightarrow> \<not> closed q \<and> length (contents q) < limit q) \<and>
      asleep q' = (if ok then cond_signal chosen (asleep q) else asleep q)"
  proof (cases "\<not> closed q \<and> length (contents q) < limit q")
    case True
    then show ?thesis using push_ok [of q chosen x] assms by fastforce
  next
    case False
    then have "push chosen q x = (False, q)" using push_refused within_limit assms(1) by (meson le_neq_implies_less)
    with False assms show ?thesis by auto
  qed
  then show "invar q'" and "contents q' = (if ok then contents q @ [x] else contents q)"
    and "closed q' = closed q" and "limit q' = limit q"
    and "ok \<longleftrightarrow> \<not> closed q \<and> length (contents q) < limit q"
    and "asleep q' = (if ok then cond_signal chosen (asleep q) else asleep q)" by blast+
qed

lemma pop_cases:
  assumes "invar q" and "pop self q = (r, q')"
  shows "invar q'" and "closed q' = closed q" and "limit q' = limit q"
    and "contents q = (case r of PopFd x \<Rightarrow> x # contents q' | _ \<Rightarrow> contents q')"
    and "r = PopClosed \<longleftrightarrow> contents q = [] \<and> closed q"
    and "r = PopWait \<longleftrightarrow> contents q = [] \<and> \<not> closed q"
    and "asleep q' = (if r = PopWait then asleep q @ [self] else asleep q)"
proof -
  have "invar q' \<and> closed q' = closed q \<and> limit q' = limit q \<and>
      contents q = (case r of PopFd x \<Rightarrow> x # contents q' | _ \<Rightarrow> contents q') \<and>
      (r = PopClosed \<longleftrightarrow> contents q = [] \<and> closed q) \<and> (r = PopWait \<longleftrightarrow> contents q = [] \<and> \<not> closed q) \<and>
      asleep q' = (if r = PopWait then asleep q @ [self] else asleep q)"
  proof (cases "contents q")
    case Nil
    then show ?thesis using pop_closed [of q self] pop_wait [of q self] assms by (cases "closed q") auto
  next
    case (Cons x xs)
    then show ?thesis using pop_some [of q x xs self] assms by auto
  qed
  then show "invar q'" and "closed q' = closed q" and "limit q' = limit q"
    and "contents q = (case r of PopFd x \<Rightarrow> x # contents q' | _ \<Rightarrow> contents q')"
    and "r = PopClosed \<longleftrightarrow> contents q = [] \<and> closed q"
    and "r = PopWait \<longleftrightarrow> contents q = [] \<and> \<not> closed q"
    and "asleep q' = (if r = PopWait then asleep q @ [self] else asleep q)" by blast+
qed

lemma run_queue_fifo:
  "invar q \<Longrightarrow> run_queue push pop close ops q = (acc, out, q') \<Longrightarrow>
   invar q' \<and> contents q @ acc = out @ contents q' \<and> length (contents q') \<le> limit q \<and> limit q' = limit q"
proof (induction ops arbitrary: q acc out)
  case Nil
  then show ?case by (simp add: within_limit)
next
  case (Cons a ops)
  show ?case
  proof (cases a)
    case (OpPush chosen x)
    obtain ok q1 where p: "push chosen q x = (ok, q1)" by fastforce
    obtain acc1 out1 where r: "run_queue push pop close ops q1 = (acc1, out1, q')"
      using Cons.prems(2) OpPush p by (auto split: prod.splits)
    from Cons.IH [OF push_cases(1) [OF Cons.prems(1) p] r] push_cases(2-4) [OF Cons.prems(1) p]
      Cons.prems(2) OpPush p r show ?thesis by (auto split: if_splits)
  next
    case (OpPop self)
    obtain x q1 where p: "pop self q = (x, q1)" by fastforce
    obtain acc1 out1 where r: "run_queue push pop close ops q1 = (acc1, out1, q')"
      using Cons.prems(2) OpPop p by (auto split: prod.splits)
    from Cons.IH [OF pop_cases(1) [OF Cons.prems(1) p] r] pop_cases(2-4) [OF Cons.prems(1) p]
      Cons.prems(2) OpPop p r show ?thesis by (auto split: pop_result.splits)
  next
    case OpClose
    with Cons.IH [of "close q"] Cons.prems close_ok [of q] show ?thesis by auto
  qed
qed

end

section \<open>The ring buffer meets the contract\<close>

definition ring_inv :: "ConnQueue \<Rightarrow> bool" where
  "ring_inv q \<longleftrightarrow> 0 < q_capacity q \<and> length (q_fds q) = q_capacity q \<and> q_head q < q_capacity q \<and>
     q_count q \<le> q_capacity q \<and> q_tail q = (q_head q + q_count q) mod q_capacity q"

definition ring_contents :: "ConnQueue \<Rightarrow> int list" where
  "ring_contents q = map (\<lambda>i. q_fds q ! ((q_head q + i) mod q_capacity q)) [0..<q_count q]"

lemma length_ring_contents [simp]: "length (ring_contents q) = q_count q"
  by (simp add: ring_contents_def)

lemma ring_index_neq:
  assumes "i < k" and "k < (n::nat)"
  shows "(h + i) mod n \<noteq> (h + k) mod n"
proof
  assume "(h + i) mod n = (h + k) mod n"
  then have "n dvd (h + k) - (h + i)" by (metis mod_eq_dvd_iff_nat add_le_cancel_left assms(1) less_imp_le)
  then have "n \<le> k - i" using assms by (auto dest: dvd_imp_le)
  then show False using assms by simp
qed

lemma queue_init_inv: "queue_init c m e f capacity = Some q \<Longrightarrow>
    ring_inv q \<and> ring_contents q = [] \<and> \<not> q_closed q \<and> q_not_empty q = [] \<and> q_capacity q = nat capacity"
  by (auto simp: queue_init_def ring_inv_def ring_contents_def split: if_splits)

lemma ring_push:
  assumes "ring_inv q" "\<not> q_closed q" "q_count q < q_capacity q"
  shows "\<exists>q'. queue_try_push chosen q x = (True, q') \<and> ring_inv q' \<and> ring_contents q' = ring_contents q @ [x] \<and>
    q_closed q' = q_closed q \<and> q_capacity q' = q_capacity q \<and> q_not_empty q' = cond_signal chosen (q_not_empty q)"
proof -
  let ?q = "q\<lparr>q_fds := (q_fds q)[q_tail q := x], q_tail := (q_tail q + 1) mod q_capacity q, q_count := q_count q + 1,
    q_not_empty := cond_signal chosen (q_not_empty q)\<rparr>"
  have "q_tail q < q_capacity q" using assms(1) by (simp add: ring_inv_def)
  moreover have "q_tail q \<noteq> (q_head q + i) mod q_capacity q" if "i < q_count q" for i
    using ring_index_neq [OF that assms(3), of "q_head q"] assms(1) by (simp add: ring_inv_def)
  moreover have "(q_head q + q_count q) mod q_capacity q = q_tail q" "length (q_fds q) = q_capacity q"
    using assms(1) by (simp_all add: ring_inv_def)
  ultimately have "ring_contents ?q = ring_contents q @ [x]"
    by (auto simp: ring_contents_def)
  moreover have "ring_inv ?q" using assms by (simp add: ring_inv_def mod_Suc_eq)
  ultimately show ?thesis using assms by (simp add: queue_try_push_def)
qed

lemma ring_pop:
  assumes "ring_inv q" "ring_contents q = x # xs"
  shows "\<exists>q'. queue_pop self q = (PopFd x, q') \<and> ring_inv q' \<and> ring_contents q' = xs \<and>
    q_closed q' = q_closed q \<and> q_capacity q' = q_capacity q \<and> q_not_empty q' = q_not_empty q"
proof -
  let ?q = "q\<lparr>q_head := (q_head q + 1) mod q_capacity q, q_count := q_count q - 1,
    q_not_full := cond_signal 0 (q_not_full q)\<rparr>"
  have pos: "0 < q_count q" using assms(2) length_ring_contents [of q] by simp
  then have split: "[0..<q_count q] = 0 # map Suc [0..<q_count q - 1]"
    by (simp add: upt_conv_Cons map_Suc_upt)
  have x: "x = q_fds q ! q_head q" and xs: "xs = map (\<lambda>i. q_fds q ! ((q_head q + Suc i) mod q_capacity q)) [0..<q_count q - 1]"
    using assms by (auto simp: ring_contents_def split ring_inv_def)
  have "ring_contents ?q = xs"
    unfolding xs by (simp add: ring_contents_def mod_Suc_eq mod_simps)
  moreover have "(Suc (q_head q) mod q_capacity q + (q_count q - 1)) mod q_capacity q =
      (q_head q + q_count q) mod q_capacity q"
    using pos by (cases "q_count q") (simp_all add: mod_simps)
  then have "ring_inv ?q" using assms(1) pos by (auto simp: ring_inv_def)
  ultimately show ?thesis using pos x by (simp add: queue_pop_def)
qed

interpretation cq: bounded_fifo queue_try_push queue_pop queue_close ring_contents q_closed q_capacity q_not_empty ring_inv
proof unfold_locales
  fix q chosen x
  assume "ring_inv q" "\<not> q_closed q" "length (ring_contents q) < q_capacity q"
  then show "\<exists>q'. queue_try_push chosen q x = (True, q') \<and> ring_inv q' \<and> ring_contents q' = ring_contents q @ [x] \<and>
      q_closed q' = q_closed q \<and> q_capacity q' = q_capacity q \<and> q_not_empty q' = cond_signal chosen (q_not_empty q)"
    using ring_push by simp
next
  fix q chosen x
  assume "ring_inv q" "q_closed q \<or> length (ring_contents q) = q_capacity q"
  then show "queue_try_push chosen q x = (False, q)" by (auto simp: queue_try_push_def)
next
  fix q x xs self
  assume "ring_inv q" "ring_contents q = x # xs"
  then show "\<exists>q'. queue_pop self q = (PopFd x, q') \<and> ring_inv q' \<and> ring_contents q' = xs \<and>
      q_closed q' = q_closed q \<and> q_capacity q' = q_capacity q \<and> q_not_empty q' = q_not_empty q"
    by (rule ring_pop)
next
  fix q self
  assume "ring_inv q" "ring_contents q = []" and closed: "q_closed q"
  then have "q_count q = 0" using length_ring_contents [of q] by simp
  then show "queue_pop self q = (PopClosed, q)" using closed by (simp add: queue_pop_def)
next
  fix q self
  assume q: "ring_inv q" "ring_contents q = []" "\<not> q_closed q"
  then have "q_count q = 0" using length_ring_contents [of q] by simp
  then show "\<exists>q'. queue_pop self q = (PopWait, q') \<and> ring_inv q' \<and> ring_contents q' = [] \<and> \<not> q_closed q' \<and>
      q_capacity q' = q_capacity q \<and> q_not_empty q' = q_not_empty q @ [self]"
    using q by (simp add: queue_pop_def cond_wait_def ring_inv_def ring_contents_def)
next
  fix q
  assume "ring_inv q"
  then show "ring_inv (queue_close q) \<and> ring_contents (queue_close q) = ring_contents q \<and> q_closed (queue_close q) \<and>
      q_capacity (queue_close q) = q_capacity q \<and> q_not_empty (queue_close q) = []"
    by (simp add: queue_close_def cond_broadcast_def ring_inv_def ring_contents_def)
next
  fix q
  assume "ring_inv q"
  then show "length (ring_contents q) \<le> q_capacity q" by (simp add: ring_inv_def)
qed

section \<open>Properties\<close>

text \<open>C10: the ring buffer implements a bounded first-in first-out queue: for every
  interleaving of pushes, pops and closes starting from a fresh queue, the
  descriptors handed out followed by those still queued are exactly the
  accepted ones in their order of acceptance, and never more than the capacity
  are queued.\<close>

theorem conn_queue_is_fifo:
  assumes "queue_init True True True True capacity = Some q0"
    and "run_queue queue_try_push queue_pop queue_close ops q0 = (accepted, delivered, q)"
  shows "accepted = delivered @ ring_contents q \<and> q_count q \<le> nat capacity \<and> ring_inv q"
  using cq.run_queue_fifo [of q0 ops accepted delivered q] queue_init_inv [OF assms(1)] assms(2) by simp

theorem conn_queue_is_fifo_witness:
  "\<exists>q0 q. queue_init True True True True 2 = Some q0 \<and>
     run_queue queue_try_push queue_pop queue_close
       [OpPop 1, OpPop 2, OpPush 1 7, OpPush 0 8, OpPush 0 9, OpPop 2, OpPush 0 5, OpClose, OpPush 0 6, OpPop 1] q0 = ([7, 8, 5], [7, 8], q) \<and>
     [7, 8, 5] = [7, 8] @ ring_contents q \<and> q_count q \<le> nat 2 \<and> ring_inv q"
proof -
  define q0 where "q0 = \<lparr>q_fds = [0, 0], q_capacity = 2, q_head = 0, q_tail = 0, q_count = 0, q_closed = False,
    q_not_empty = [], q_not_full = []\<rparr>"
  define q where "q = \<lparr>q_fds = [5, 8], q_capacity = 2, q_head = 0, q_tail = 1, q_count = 1, q_closed = True,
    q_not_empty = [], q_not_full = []\<rparr>"
  have i: "queue_init True True True True 2 = Some q0"
    by (simp add: queue_init_def q0_def numeral_2_eq_2)
  have r: "run_queue queue_try_push queue_pop queue_close
       [OpPop 1, OpPop 2, OpPush 1 7, OpPush 0 8, OpPush 0 9, OpPop 2, OpPush 0 5, OpClose, OpPush 0 6, OpPop 1] q0 = ([7, 8, 5], [7, 8], q)"
    by (simp add: q0_def q_def queue_try_push_def queue_pop_def queue_close_def cond_signal_def cond_wait_def cond_broadcast_def)
  show ?thesis using i r conn_queue_is_fifo [OF i r] by blast
qed

end
