(* ===== verification/Server_Core.thy ===== *)
theory Server_Core
  imports Http Store Conn_Queue "HOL-Library.Word"
begin

unbundle bit_operations_syntax

text \<open>
  The server object of \<open>src/server.c\<close> without its threads: configuration and its
  validation, the counters, creation and destruction, uptime and the API-key check.
  The counters are \<open>atomic_ulong\<close> and kept at their width; the key comparison is
  modelled on words, with the promotions of C.
\<close>

section \<open>Configuration\<close>

abbreviation (input) MAX_THREADS :: int where "MAX_THREADS \<equiv> 64"
abbreviation (input) MAX_QUEUE_SIZE :: int where "MAX_QUEUE_SIZE \<equiv> 4096"
abbreviation (input) MAX_BACKLOG :: int where "MAX_BACKLOG \<equiv> 1024"

definition SERVER_VERSION :: cstr where "SERVER_VERSION = ''0.2.0''"

record ServerConfig =
  cf_bind_ip :: "cstr option"
  cf_port :: "16 word"
  cf_thread_count :: int
  cf_backlog :: int
  cf_queue_size :: int
  cf_db_path :: "cstr option"
  cf_api_key :: "cstr option"

definition server_config_validate :: "ServerConfig option \<Rightarrow> bool" where
  "server_config_validate config =
     (case config of
        None \<Rightarrow> False
      | Some cf \<Rightarrow>
          if cf_port cf = 0 then False
          else if cf_thread_count cf \<le> 0 \<or> cf_thread_count cf > MAX_THREADS then False
          else if cf_backlog cf \<le> 0 \<or> cf_backlog cf > MAX_BACKLOG then False
          else if cf_queue_size cf \<le> 0 \<or> cf_queue_size cf > MAX_QUEUE_SIZE then False
          else if cf_db_path cf = None \<or> cf_db_path cf = Some [] then False
          else if (case cf_api_key cf of None \<Rightarrow> False | Some k \<Rightarrow> length k \<ge> HTTP_MAX_API_KEY_LEN) then False
          else True)"

section \<open>Counters and the server object\<close>

record ServerStats =
  ss_accepted :: "64 word"
  ss_handled :: "64 word"
  ss_dropped :: "64 word"
  ss_echo_bytes :: "64 word"
  ss_errors :: "64 word"
  ss_http_requests :: "64 word"
  ss_http_errors :: "64 word"

definition zero_stats :: ServerStats where
  "zero_stats = \<lparr>ss_accepted = 0, ss_handled = 0, ss_dropped = 0, ss_echo_bytes = 0, ss_errors = 0,
     ss_http_requests = 0, ss_http_errors = 0\<rparr>"

definition stats_bump :: "64 word \<Rightarrow> 64 word" where
  "stats_bump counter = counter + 1"

record 'db Server =
  sv_config :: ServerConfig
  sv_listen_fd :: int
  sv_stop_requested :: bool
  sv_worker_count :: int
  sv_queue :: ConnQueue
  sv_stats :: ServerStats
  sv_store :: "'db option"
  sv_start_time :: int
  sv_api_key :: cstr

text \<open>What the environment decides while a server is created: the allocation of the
  server, the initialisation calls of the queue and of the store, and the time.\<close>

record create_env =
  ce_calloc :: bool
  ce_queue :: "bool \<times> bool \<times> bool \<times> bool"
  ce_store_calloc :: bool
  ce_store_mutex :: bool
  ce_now :: int

definition server_create :: "'db sqlite3 \<Rightarrow> create_env \<Rightarrow> ServerConfig option \<Rightarrow> 'db Server option" where
  "server_create sq env config =
     (if \<not> server_config_validate config then None
      else if \<not> ce_calloc env then None
      else
        (let cf = the config; (q1, q2, q3, q4) = ce_queue env
         in case queue_init q1 q2 q3 q4 (cf_queue_size cf) of
              None \<Rightarrow> None
            | Some queue \<Rightarrow>
                (case store_open sq (ce_store_calloc env) (ce_store_mutex env) (cf_db_path cf) (Some 512) of
                   Inl _ \<Rightarrow> None
                 | Inr db \<Rightarrow> Some
                     \<lparr>sv_config = cf, sv_listen_fd = -1, sv_stop_requested = False, sv_worker_count = 0,
                      sv_queue = queue, sv_stats = zero_stats, sv_store = Some db, sv_start_time = ce_now env,
                      sv_api_key = (case cf_api_key cf of
                          None \<Rightarrow> []
                        | Some k \<Rightarrow> snprintf_buf HTTP_MAX_API_KEY_LEN k)\<rparr>)))"

text \<open>\<open>server_stop\<close>: the stop flag, then the queue; the listener is shut down and
  stays open.\<close>

definition server_stop :: "'db Server option \<Rightarrow> 'db Server option" where
  "server_stop server =
     map_option (\<lambda>sv. sv\<lparr>sv_stop_requested := True, sv_queue := queue_close (sv_queue sv)\<rparr>) server"

text \<open>\<open>server_destroy\<close>: the database as the checkpoint leaves it, the freed queue and
  the descriptors closed.\<close>

definition server_destroy :: "'db sqlite3 \<Rightarrow> 'db Server option \<Rightarrow> ('db option \<times> ConnQueue \<times> int list) option" where
  "server_destroy sq server =
     map_option (\<lambda>sv. (store_close sq (sv_store sv), queue_destroy (sv_queue sv),
       if sv_listen_fd sv \<ge> 0 then [sv_listen_fd sv] else [])) server"

text \<open>\<open>server_stats\<close> loads every counter; \<open>None\<close> leaves the output untouched.\<close>

definition server_stats :: "'db Server option \<Rightarrow> ServerStats option" where
  "server_stats server = map_option sv_stats server"

definition server_uptime_s :: "int \<Rightarrow> 'db Server option \<Rightarrow> int" where
  "server_uptime_s now server =
     (case server of
        None \<Rightarrow> 0
      | Some sv \<Rightarrow> if now < sv_start_time sv then 0 else now - sv_start_time sv)"

section \<open>The API key\<close>

definition server_auth_enabled :: "'db Server option \<Rightarrow> bool" where
  "server_auth_enabled server = (case server of None \<Rightarrow> False | Some sv \<Rightarrow> sv_api_key sv \<noteq> [])"

text \<open>\<open>char\<close> is signed and promoted to \<open>int\<close> before the exclusive or.\<close>

definition char_word :: "char \<Rightarrow> 8 word" where
  "char_word c = of_nat (uchar c)"

definition padded :: "cstr \<Rightarrow> nat \<Rightarrow> 8 word" where
  "padded s i = (if i < length s then char_word (s ! i) else 0)"

definition key_matches :: "cstr \<Rightarrow> cstr \<Rightarrow> bool" where
  "key_matches expected provided =
     (let expected_len = (of_nat (length expected) :: 64 word);
          provided_len = (of_nat (length provided) :: 64 word);
          width = max (length expected) (length provided);
          diff0 = (ucast (expected_len XOR provided_len) :: 32 word);
          diff = fold (\<lambda>i diff. diff OR ((scast (padded expected i) :: 32 word) XOR scast (padded provided i)))
                   [0..<width] diff0
      in diff = 0)"

definition server_auth_check :: "'db Server option \<Rightarrow> HttpRequest option \<Rightarrow> ApiError" where
  "server_auth_check server req =
     (case (server, req) of
        (Some sv, Some rq) \<Rightarrow>
          if \<not> server_auth_enabled server then API_OK
          else if rq_api_key rq = [] then API_ERR_UNAUTHORIZED
          else if key_matches (sv_api_key sv) (rq_api_key rq) then API_OK else API_ERR_FORBIDDEN
      | _ \<Rightarrow> API_ERR_INTERNAL)"

section \<open>Facts\<close>

lemma unat_char_word: "unat (char_word c) = uchar c"
  using uchar_less [of c] by (simp add: char_word_def unat_of_nat take_bit_nat_eq_self)

lemma char_word_inj: "char_word c = char_word d \<longleftrightarrow> c = d"
  using uchar_inj by (metis unat_char_word)

lemma char_word_zero: "char_word c = 0 \<longleftrightarrow> c = NUL"
  using char_word_inj [of c NUL] by (simp add: char_word_def)

lemma scast_inj: "(scast (a :: 8 word) :: 32 word) = scast b \<longleftrightarrow> a = b"
proof
  assume a: "(scast a :: 32 word) = scast b"
  have up: "is_up (scast :: 8 word \<Rightarrow> 32 word)" by (simp add: is_up)
  have "sint a = sint b" using arg_cong [OF a, of sint] by (simp add: sint_up_scast [OF up])
  then show "a = b" by (rule signed_word_eqI)
qed simp

lemma xor_zero: "(a :: 32 word) XOR b = 0 \<longleftrightarrow> a = b"
  by (metis bit.xor_self xor.assoc xor.left_neutral xor.right_neutral)

lemma fold_or_zero:
  "fold (\<lambda>i d. d OR f i) xs d0 = (0 :: 32 word) \<longleftrightarrow> d0 = 0 \<and> (\<forall>i \<in> set xs. f i = 0)"
proof (induction xs arbitrary: d0)
  case (Cons x xs)
  have "d0 OR f x = 0 \<longleftrightarrow> d0 = 0 \<and> f x = 0" by (simp add: or_eq_0_iff)
  with Cons show ?case by auto
qed simp

lemma padded_zero: "nonul s \<Longrightarrow> padded s i = 0 \<longleftrightarrow> length s \<le> i"
  by (auto simp: padded_def char_word_zero nonul_def set_conv_nth)

lemma key_matches_padded:
  "key_matches s t \<longleftrightarrow>
     (ucast ((of_nat (length s) :: 64 word) XOR of_nat (length t)) :: 32 word) = 0 \<and>
     (\<forall>i < max (length s) (length t). padded s i = padded t i)"
  by (auto simp: key_matches_def Let_def fold_or_zero xor_zero scast_inj)

lemma key_matches_iff:
  assumes "nonul s" "nonul t"
  shows "key_matches s t \<longleftrightarrow> s = t"
proof
  assume "key_matches s t"
  then have p: "padded s i = padded t i" if "i < max (length s) (length t)" for i
    using that by (simp add: key_matches_padded)
  have "length s = length t"
  proof (rule ccontr)
    assume "length s \<noteq> length t"
    define m where "m = min (length s) (length t)"
    have "padded s m = padded t m" using p [of m] \<open>length s \<noteq> length t\<close> by (auto simp: m_def)
    then have "length s \<le> m \<longleftrightarrow> length t \<le> m" using padded_zero assms by metis
    then show False using \<open>length s \<noteq> length t\<close> by (auto simp: m_def min_def split: if_splits)
  qed
  moreover have "s ! i = t ! i" if "i < length s" "i < length t" for i
    using p [of i] that by (simp add: padded_def char_word_inj)
  ultimately show "s = t" by (simp add: list_eq_iff_nth_eq)
next
  assume "s = t"
  then show "key_matches s t" by (simp add: key_matches_padded)
qed

lemma server_auth_check_cases:
  assumes "nonul (sv_api_key sv)" "nonul (rq_api_key rq)"
  shows "server_auth_check (Some sv) (Some rq) =
    (if sv_api_key sv = [] then API_OK
     else if rq_api_key rq = [] then API_ERR_UNAUTHORIZED
     else if rq_api_key rq = sv_api_key sv then API_OK else API_ERR_FORBIDDEN)"
  using key_matches_iff [OF assms] by (auto simp: server_auth_check_def server_auth_enabled_def)

lemma store_open_Inr: "store_open sq c m path errbuf = Inr db \<Longrightarrow> path \<noteq> None \<and> path \<noteq> Some []"
  by (auto simp: store_open_def split: if_splits)

lemma server_config_validate_iff:
  "server_config_validate (Some cf) \<longleftrightarrow>
     cf_port cf \<noteq> 0 \<and> 1 \<le> cf_thread_count cf \<and> cf_thread_count cf \<le> 64 \<and>
     1 \<le> cf_backlog cf \<and> cf_backlog cf \<le> 1024 \<and> 1 \<le> cf_queue_size cf \<and> cf_queue_size cf \<le> 4096 \<and>
     (\<exists>p. cf_db_path cf = Some p \<and> p \<noteq> []) \<and> (\<forall>k. cf_api_key cf = Some k \<longrightarrow> length k < 256)"
  by (auto simp: server_config_validate_def split: option.splits)

section \<open>Properties\<close>

text \<open>C13: authorization is exact.  The constant-time comparison, with its word
  arithmetic and its truncation of the length difference to 32 bits, decides equality
  of keys; a protected server answers a request without a key with 401, one with a
  wrong key with 403, and accepts only the configured key.\<close>

theorem server_auth_check_exact:
  assumes "nonul (sv_api_key sv)" and "nonul (rq_api_key rq)"
  shows "(key_matches (sv_api_key sv) (rq_api_key rq) \<longleftrightarrow> sv_api_key sv = rq_api_key rq) \<and>
    server_auth_check (Some sv) (Some rq) =
      (if sv_api_key sv = [] then API_OK
       else if rq_api_key rq = [] then API_ERR_UNAUTHORIZED
       else if rq_api_key rq = sv_api_key sv then API_OK else API_ERR_FORBIDDEN)"
  using key_matches_iff [OF assms] server_auth_check_cases [OF assms] by blast

definition sample_config :: ServerConfig where
  "sample_config = \<lparr>cf_bind_ip = None, cf_port = 8080, cf_thread_count = 8, cf_backlog = 64, cf_queue_size = 2,
     cf_db_path = Some ''app.db'', cf_api_key = Some ''secret''\<rparr>"

definition sample_server :: "'db option \<Rightarrow> 'db Server" where
  "sample_server st = \<lparr>sv_config = sample_config, sv_listen_fd = -1, sv_stop_requested = False, sv_worker_count = 0,
     sv_queue = \<lparr>q_fds = [0, 0], q_capacity = 2, q_head = 0, q_tail = 0, q_count = 0, q_closed = False,
       q_not_empty = [], q_not_full = []\<rparr>,
     sv_stats = zero_stats, sv_store = st, sv_start_time = 1000, sv_api_key = ''secret''\<rparr>"

theorem server_auth_check_exact_witness:
  "server_auth_check (Some (sample_server (None :: unit option))) (Some (zero_request\<lparr>rq_api_key := ''Secret''\<rparr>)) =
     API_ERR_FORBIDDEN"
  using server_auth_check_exact [of "sample_server (None :: unit option)" "zero_request\<lparr>rq_api_key := ''Secret''\<rparr>"]
  by (simp add: sample_server_def zero_request_def)

text \<open>C34: \<open>server_create\<close> succeeds exactly when the configuration is within the
  documented ranges and every resource is obtained, and then the server starts with an
  open empty queue of the configured size, zero counters, an open store and the
  configured key, untruncated.\<close>

theorem server_create_initial:
  "server_create sq env (Some cf) = Some sv \<longleftrightarrow>
     server_config_validate (Some cf) \<and> ce_calloc env \<and> ce_queue env = (True, True, True, True) \<and>
     (\<exists>db. store_open sq (ce_store_calloc env) (ce_store_mutex env) (cf_db_path cf) (Some 512) = Inr db \<and>
        sv_store sv = Some db) \<and>
     sv_config sv = cf \<and> sv_listen_fd sv = -1 \<and> \<not> sv_stop_requested sv \<and> sv_worker_count sv = 0 \<and>
     sv_queue sv = \<lparr>q_fds = replicate (nat (cf_queue_size cf)) 0, q_capacity = nat (cf_queue_size cf),
       q_head = 0, q_tail = 0, q_count = 0, q_closed = False, q_not_empty = [], q_not_full = []\<rparr> \<and>
     sv_stats sv = zero_stats \<and> sv_start_time sv = ce_now env \<and>
     sv_api_key sv = (case cf_api_key cf of None \<Rightarrow> [] | Some k \<Rightarrow> k)"
proof -
  have key: "snprintf_buf HTTP_MAX_API_KEY_LEN k = k" if "server_config_validate (Some cf)" "cf_api_key cf = Some k" for k
    using that by (simp add: server_config_validate_iff snprintf_buf_def)
  have size: "0 < cf_queue_size cf" if "server_config_validate (Some cf)"
    using that by (simp add: server_config_validate_iff)
  obtain q1 q2 q3 q4 where q: "ce_queue env = (q1, q2, q3, q4)" by (cases "ce_queue env")
  show ?thesis
    using key size
    by (cases sv) (auto simp: server_create_def queue_init_def Let_def q split: option.splits sum.splits if_splits)
qed

end
