(* ===== verification/Main_Cli.thy ===== *)
theory Main_Cli
  imports Server_Core
begin

text \<open>
  The command line of \<open>src/main.c\<close>: numbers, the directories of the database
  path, environment variables and arguments, the configuration they give, and the
  start of the server.  \<open>getenv\<close>, \<open>inet_pton\<close> and \<open>mkdir\<close> are
  arguments; an early return of \<open>main\<close> is its exit code with the text it writes to
  \<open>stderr\<close>.
\<close>

section \<open>Usage and numbers\<close>

abbreviation (input) SERVER_MAX_PORT :: int where "SERVER_MAX_PORT \<equiv> 65535"
abbreviation (input) SERVER_DEFAULT_PORT :: "16 word" where "SERVER_DEFAULT_PORT \<equiv> 8080"
abbreviation (input) SERVER_DEFAULT_THREADS :: int where "SERVER_DEFAULT_THREADS \<equiv> 8"
abbreviation (input) SERVER_DEFAULT_BACKLOG :: int where "SERVER_DEFAULT_BACKLOG \<equiv> 64"
abbreviation (input) SERVER_DEFAULT_QUEUE_SIZE :: int where "SERVER_DEFAULT_QUEUE_SIZE \<equiv> 128"

definition SERVER_DEFAULT_DB :: cstr where "SERVER_DEFAULT_DB = ''./data/app.db''"

definition print_usage :: "cstr \<Rightarrow> cstr" where
  "print_usage program =
     ''Usage: '' @ program @ '' [--bind IP] [--port PORT] [--threads N] [--db PATH] [--api-key KEY]'' @ [LF] @
     ''Env: BIND_IP, PORT, THREADS, DB_PATH, API_KEY (CLI overrides env)'' @ [LF] @
     ''Defaults: bind=0.0.0.0 port=8080 threads=8 db=./data/app.db api-key=(open mode)'' @ [LF] @
     ''Auth: with --api-key set, PUT/POST/DELETE under /api/ require X-API-Key'' @ [LF] @
     ''      (missing -> 401, wrong -> 403). Without it the server is open.'' @ [LF]"

text \<open>\<open>None\<close> is the return value -1.\<close>

definition parse_port :: "cstr option \<Rightarrow> 16 word option" where
  "parse_port text =
     (case text of
        None \<Rightarrow> None
      | Some t \<Rightarrow>
          (case strtol t of (val, rest, erange) \<Rightarrow>
             if erange \<or> rest = t \<or> rest \<noteq> [] \<or> val \<le> 0 \<or> val > SERVER_MAX_PORT then None
             else Some (of_int val)))"

definition parse_positive :: "cstr option \<Rightarrow> int \<Rightarrow> int option" where
  "parse_positive text max_value =
     (case text of
        None \<Rightarrow> None
      | Some t \<Rightarrow>
          (case strtol t of (val, rest, erange) \<Rightarrow>
             if erange \<or> rest = t \<or> rest \<noteq> [] \<or> val \<le> 0 \<or> val > max_value then None
             else Some val))"

section \<open>Directories\<close>

datatype mkdir_result = MkOk | MkExists | MkFail

text \<open>The component loop: \<open>pre\<close> is what lies before \<open>p\<close>.  The outcome of
  \<open>mkdir\<close> is ignored, its effect on the file system is not.\<close>

fun mkdir_walk :: "(cstr \<Rightarrow> 'fs \<Rightarrow> mkdir_result \<times> 'fs) \<Rightarrow> cstr \<Rightarrow> cstr \<Rightarrow> 'fs \<Rightarrow> 'fs" where
  "mkdir_walk mkdir pre [] fs = fs"
| "mkdir_walk mkdir pre (c # cs) fs =
     mkdir_walk mkdir (pre @ [c]) cs (if c = CHR ''/'' then snd (mkdir pre fs) else fs)"

text \<open>\<open>strrchr\<close>: the position of the last occurrence.\<close>

definition strrchr :: "cstr \<Rightarrow> char \<Rightarrow> nat option" where
  "strrchr s c = (if c \<in> set s then Some (length s - 1 - length (takeWhile (\<lambda>x. x \<noteq> c) (rev s))) else None)"

text \<open>Whether 0 is returned, and the file system afterwards.\<close>

definition ensure_db_dir :: "(cstr \<Rightarrow> 'fs \<Rightarrow> mkdir_result \<times> 'fs) \<Rightarrow> cstr option \<Rightarrow> 'fs \<Rightarrow> bool \<times> 'fs" where
  "ensure_db_dir mkdir db_path fs =
     (case db_path of
        None \<Rightarrow> (False, fs)
      | Some path \<Rightarrow>
          if path = [] then (False, fs)
          else
            (let buf = snprintf_buf 1024 path
             in case strrchr buf CHR ''/'' of
                  None \<Rightarrow> (True, fs)
                | Some slash \<Rightarrow>
                    (let dir = take slash buf
                     in if dir = [] then (True, fs)
                        else (case mkdir dir (mkdir_walk mkdir (take 1 dir) (drop 1 dir) fs) of
                                (r, fs') \<Rightarrow> (r \<noteq> MkFail, fs')))))"

section \<open>Arguments\<close>

record cli =
  cl_bind_ip :: cstr
  cl_port :: "16 word"
  cl_threads :: int
  cl_db_path :: cstr
  cl_api_key :: "cstr option"

type_synonym early_exit = "int \<times> cstr"

definition usage_error :: "cstr \<Rightarrow> cstr \<Rightarrow> early_exit" where
  "usage_error program msg = (2, ''error: '' @ msg @ [LF] @ print_usage program)"

text \<open>The argument loop, on the arguments from \<open>argv[i]\<close> on.\<close>

function parse_args :: "cstr \<Rightarrow> cstr list \<Rightarrow> cli \<Rightarrow> early_exit + cli" where
  "parse_args program args c =
     (case args of
        [] \<Rightarrow> Inr c
      | a # rest \<Rightarrow>
          if a = ''--bind'' \<and> rest \<noteq> [] then parse_args program (tl rest) (c\<lparr>cl_bind_ip := hd rest\<rparr>)
          else if a = ''--port'' \<and> rest \<noteq> [] then
            (case parse_port (Some (hd rest)) of
               None \<Rightarrow> Inl (usage_error program ''invalid --port value'')
             | Some port \<Rightarrow> parse_args program (tl rest) (c\<lparr>cl_port := port\<rparr>))
          else if a = ''--threads'' \<and> rest \<noteq> [] then
            (case parse_positive (Some (hd rest)) 64 of
               None \<Rightarrow> Inl (usage_error program ''invalid --threads value'')
             | Some n \<Rightarrow> parse_args program (tl rest) (c\<lparr>cl_threads := n\<rparr>))
          else if a = ''--db'' \<and> rest \<noteq> [] then
            (if hd rest = [] then Inl (usage_error program ''invalid --db value'')
             else parse_args program (tl rest) (c\<lparr>cl_db_path := hd rest\<rparr>))
          else if a = ''--api-key'' \<and> rest \<noteq> [] then
            parse_args program (tl rest) (c\<lparr>cl_api_key := Some (hd rest)\<rparr>)
          else if a = ''--help'' \<or> a = ''-h'' then Inl (0, print_usage program)
          else Inl (usage_error program (''unknown arg: '' @ a)))"
  by pat_completeness auto
termination
  by (relation "measure (\<lambda>(program, args, c). length args)") auto

declare parse_args.simps [simp del]

text \<open>The defaults and the environment variables.\<close>

definition cli_from_env :: "(cstr \<Rightarrow> cstr option) \<Rightarrow> early_exit + cli" where
  "cli_from_env getenv =
     (let set_text = (\<lambda>v. case v of None \<Rightarrow> False | Some t \<Rightarrow> t \<noteq> []);
          bind_ip = (if set_text (getenv ''BIND_IP'') then the (getenv ''BIND_IP'') else ''0.0.0.0'');
          db_path = (if set_text (getenv ''DB_PATH'') then the (getenv ''DB_PATH'') else SERVER_DEFAULT_DB);
          port = (if set_text (getenv ''PORT'') then parse_port (getenv ''PORT'') else Some SERVER_DEFAULT_PORT);
          threads = (if set_text (getenv ''THREADS'') then parse_positive (getenv ''THREADS'') 64
                     else Some SERVER_DEFAULT_THREADS)
      in case port of
           None \<Rightarrow> Inl (2, ''error: invalid PORT='' @ the (getenv ''PORT'') @ [LF])
         | Some p \<Rightarrow>
             (case threads of
                None \<Rightarrow> Inl (2, ''error: invalid THREADS='' @ the (getenv ''THREADS'') @ [LF])
              | Some n \<Rightarrow> Inr \<lparr>cl_bind_ip = bind_ip, cl_port = p, cl_threads = n, cl_db_path = db_path,
                               cl_api_key = getenv ''API_KEY''\<rparr>))"

text \<open>\<open>main\<close> up to the initialisation of \<open>config\<close>; \<open>argv\<close> starts with the
  program name.\<close>

definition main_config ::
  "(cstr \<Rightarrow> cstr option) \<Rightarrow> (cstr \<Rightarrow> bool) \<Rightarrow> cstr list \<Rightarrow> early_exit + ServerConfig" where
  "main_config getenv inet_pton argv =
     (case cli_from_env getenv of
        Inl e \<Rightarrow> Inl e
      | Inr c0 \<Rightarrow>
          (case parse_args (hd argv) (tl argv) c0 of
             Inl e \<Rightarrow> Inl e
           | Inr c \<Rightarrow>
               if cl_bind_ip c \<noteq> ''0.0.0.0'' \<and> \<not> inet_pton (cl_bind_ip c)
               then Inl (2, ''error: invalid bind IP: '' @ cl_bind_ip c @ [LF])
               else if (case cl_api_key c of None \<Rightarrow> False | Some k \<Rightarrow> k \<noteq> [] \<and> length k \<ge> HTTP_MAX_API_KEY_LEN)
               then Inl (2, ''error: --api-key too long (max '' @ show_nat (HTTP_MAX_API_KEY_LEN - 1) @ '' chars)'' @ [LF])
               else Inr \<lparr>cf_bind_ip = Some (cl_bind_ip c), cf_port = cl_port c, cf_thread_count = cl_threads c,
                         cf_backlog = SERVER_DEFAULT_BACKLOG, cf_queue_size = SERVER_DEFAULT_QUEUE_SIZE,
                         cf_db_path = Some (cl_db_path c), cf_api_key = cl_api_key c\<rparr>))"

text \<open>\<open>main\<close> up to the server it runs, with the file system it leaves;
  \<open>strerror\<close> is the text for \<open>errno\<close>.\<close>

definition main_start ::
  "'db sqlite3 \<Rightarrow> create_env \<Rightarrow> (cstr \<Rightarrow> cstr option) \<Rightarrow> (cstr \<Rightarrow> bool) \<Rightarrow>
   (cstr \<Rightarrow> 'fs \<Rightarrow> mkdir_result \<times> 'fs) \<Rightarrow> cstr \<Rightarrow> cstr list \<Rightarrow> 'fs \<Rightarrow> (early_exit + 'db Server) \<times> 'fs" where
  "main_start sq env getenv inet_pton mkdir strerror argv fs =
     (case main_config getenv inet_pton argv of
        Inl e \<Rightarrow> (Inl e, fs)
      | Inr config \<Rightarrow>
          (case ensure_db_dir mkdir (cf_db_path config) fs of (ok, fs') \<Rightarrow>
             (if \<not> ok then Inl (2, ''error: cannot create db directory for: '' @ the (cf_db_path config) @ [LF])
              else (case server_create sq env (Some config) of
                      None \<Rightarrow> Inl (1, ''error: server_create failed: '' @ strerror @ [LF])
                    | Some server \<Rightarrow> Inr server), fs')))"

text \<open>The signal handler: the two globals after it.\<close>

definition on_signal :: "bool \<times> 'db Server option \<Rightarrow> bool \<times> 'db Server option" where
  "on_signal g = (True, case snd g of None \<Rightarrow> None | Some sv \<Rightarrow> server_stop (Some sv))"

text \<open>The exit code of \<open>main\<close> from the result of \<open>server_run\<close>.\<close>

definition main_exit :: "int \<Rightarrow> int" where
  "main_exit result = (if result = 0 then 0 else 1)"

section \<open>Numbers\<close>

lemma of_int_16_zero: "0 < val \<Longrightarrow> val \<le> SERVER_MAX_PORT \<Longrightarrow> (of_int val :: 16 word) \<noteq> 0 \<and> uint (of_int val :: 16 word) = val"
proof -
  assume v: "0 < val" "val \<le> SERVER_MAX_PORT"
  then have "uint (of_int val :: 16 word) = val" by (simp add: uint_word_of_int take_bit_int_eq_self)
  with v show ?thesis by auto
qed

lemma parse_port_Some:
  "parse_port (Some t) = Some p \<longleftrightarrow>
     (\<exists>val. strtol t = (val, [], False) \<and> t \<noteq> [] \<and> 0 < val \<and> val \<le> SERVER_MAX_PORT \<and> p = of_int val)"
  by (auto simp: parse_port_def split: prod.splits)

lemma parse_positive_Some:
  "parse_positive (Some t) m = Some n \<longleftrightarrow> strtol t = (n, [], False) \<and> t \<noteq> [] \<and> 0 < n \<and> n \<le> m"
  by (auto simp: parse_positive_def split: prod.splits)

lemma parse_port_nonzero: "parse_port t = Some p \<Longrightarrow> p \<noteq> 0"
  by (cases t) (auto simp: parse_port_Some parse_port_def [of None] dest: of_int_16_zero)

lemma parse_positive_range: "parse_positive t m = Some n \<Longrightarrow> 0 < n \<and> n \<le> m"
  by (cases t) (auto simp: parse_positive_Some parse_positive_def [of None])

section \<open>The argument loop\<close>

text \<open>The effect of one option with its value, \<open>None\<close> if it is refused.\<close>

definition option_effect :: "cstr \<times> cstr \<Rightarrow> cli \<Rightarrow> cli option" where
  "option_effect o_v c =
     (case o_v of (name, v) \<Rightarrow>
        if name = ''--bind'' then Some (c\<lparr>cl_bind_ip := v\<rparr>)
        else if name = ''--port'' then map_option (\<lambda>p. c\<lparr>cl_port := p\<rparr>) (parse_port (Some v))
        else if name = ''--threads'' then map_option (\<lambda>n. c\<lparr>cl_threads := n\<rparr>) (parse_positive (Some v) 64)
        else if name = ''--db'' then (if v = [] then None else Some (c\<lparr>cl_db_path := v\<rparr>))
        else if name = ''--api-key'' then Some (c\<lparr>cl_api_key := Some v\<rparr>)
        else None)"

fun options_effect :: "(cstr \<times> cstr) list \<Rightarrow> cli \<Rightarrow> cli option" where
  "options_effect [] c = Some c"
| "options_effect (p # ps) c = Option.bind (option_effect p c) (options_effect ps)"

definition render_options :: "(cstr \<times> cstr) list \<Rightarrow> cstr list" where
  "render_options ps = concat (map (\<lambda>(name, v). [name, v]) ps)"

definition is_help :: "cstr \<Rightarrow> bool" where
  "is_help a \<longleftrightarrow> a = ''--help'' \<or> a = ''-h''"

lemma render_options_simps [simp]:
  "render_options [] = []" "render_options ((name, v) # ps) = name # v # render_options ps"
  by (simp_all add: render_options_def)

lemma parse_args_Nil [simp]: "parse_args program [] c = Inr c"
  by (simp add: parse_args.simps [of program "[]"])

text \<open>One round of the loop: an option that takes a value is its effect, everything else ends
  the program.\<close>

lemma parse_args_step:
  assumes "option_effect (a, v) c = Some c'"
  shows "parse_args program (a # v # rest) c = parse_args program rest c'"
  using assms
  by (subst parse_args.simps) (auto simp: option_effect_def split: if_splits)

lemma parse_args_refused:
  assumes "option_effect (a, v) c = None"
  shows "\<exists>t. parse_args program (a # v # rest) c =
    Inl (if is_help a then (0, print_usage program) else usage_error program t)"
proof -
  have "is_help a \<Longrightarrow> a \<noteq> ''--bind'' \<and> a \<noteq> ''--port'' \<and> a \<noteq> ''--threads'' \<and> a \<noteq> ''--db'' \<and> a \<noteq> ''--api-key''"
    by (auto simp: is_help_def)
  then show ?thesis
    using assms
    by (subst parse_args.simps) (auto simp: option_effect_def is_help_def split: if_splits)
qed

lemma parse_args_single:
  "parse_args program [a] c =
     Inl (if is_help a then (0, print_usage program) else usage_error program (''unknown arg: '' @ a))"
  by (subst parse_args.simps) (simp add: is_help_def)

lemma parse_args_render:
  "options_effect ps c = Some c' \<Longrightarrow> parse_args program (render_options ps) c = Inr c'"
  by (induction ps arbitrary: c) (auto simp: Option.bind_eq_Some_conv parse_args_step)

text \<open>The outcome of the loop in one statement, for the inductions below.\<close>

lemma parse_args_cases:
  "(\<exists>ps c'. args = render_options ps \<and> options_effect ps c = Some c' \<and> parse_args program args c = Inr c') \<or>
   (\<exists>t. parse_args program args c = Inl (usage_error program t)) \<or>
   parse_args program args c = Inl (0, print_usage program) \<and> (\<exists>a \<in> set args. is_help a)"
proof (induction args arbitrary: c rule: induct_list012)
  case 1
  show ?case by (intro disjI1 exI [of _ "[]"]) simp
next
  case (2 a)
  then show ?case by (auto simp: parse_args_single)
next
  case (3 a v rest)
  show ?case
  proof (cases "option_effect (a, v) c")
    case None
    with parse_args_refused [OF None, of program rest] show ?thesis by (auto split: if_splits)
  next
    case (Some c')
    have step: "parse_args program (a # v # rest) c = parse_args program rest c'"
      by (rule parse_args_step) fact
    from 3(1) [of c'] show ?thesis
    proof (elim disjE exE conjE)
      fix ps c'' assume "rest = render_options ps" "options_effect ps c' = Some c''" "parse_args program rest c' = Inr c''"
      with Some step show ?thesis by (intro disjI1 exI [of _ "(a, v) # ps"]) simp
    qed (auto simp: step)
  qed
qed

section \<open>Properties of the command line\<close>

definition cli_ok :: "cli \<Rightarrow> bool" where
  "cli_ok c \<longleftrightarrow> cl_port c \<noteq> 0 \<and> 1 \<le> cl_threads c \<and> cl_threads c \<le> 64 \<and> cl_db_path c \<noteq> []"

lemma option_effect_ok: "option_effect p c = Some c' \<Longrightarrow> cli_ok c \<Longrightarrow> cli_ok c'"
  by (cases p) (auto simp: option_effect_def cli_ok_def split: if_splits
      dest: parse_port_nonzero parse_positive_range)

lemma options_effect_ok: "options_effect ps c = Some c' \<Longrightarrow> cli_ok c \<Longrightarrow> cli_ok c'"
  by (induction ps arbitrary: c) (auto simp: Option.bind_eq_Some_conv dest: option_effect_ok)

lemma cli_from_env_ok: "cli_from_env getenv = Inr c \<Longrightarrow> cli_ok c"
proof -
  assume a: "cli_from_env getenv = Inr c"
  define set_text where "set_text = (\<lambda>v. case v of None \<Rightarrow> False | Some (t :: cstr) \<Rightarrow> t \<noteq> [])"
  define db where "db = (if set_text (getenv ''DB_PATH'') then the (getenv ''DB_PATH'') else SERVER_DEFAULT_DB)"
  from a obtain p n ip key where c: "c = \<lparr>cl_bind_ip = ip, cl_port = p, cl_threads = n, cl_db_path = db, cl_api_key = key\<rparr>"
      and p: "(if set_text (getenv ''PORT'') then parse_port (getenv ''PORT'') else Some SERVER_DEFAULT_PORT) = Some p"
      and n: "(if set_text (getenv ''THREADS'') then parse_positive (getenv ''THREADS'') 64
               else Some SERVER_DEFAULT_THREADS) = Some n"
    unfolding cli_from_env_def Let_def db_def set_text_def [symmetric]
    by (simp split: option.splits) blast
  have "p \<noteq> 0" using p parse_port_nonzero by (auto split: if_splits)
  moreover have "1 \<le> n \<and> n \<le> 64" using n by (auto split: if_splits dest: parse_positive_range)
  moreover have "db \<noteq> []" by (auto simp: db_def set_text_def SERVER_DEFAULT_DB_def split: option.splits)
  ultimately show ?thesis by (simp add: c cli_ok_def)
qed

lemma parse_args_Inr: "parse_args program args c = Inr c' \<Longrightarrow> \<exists>ps. args = render_options ps \<and> options_effect ps c = Some c'"
  using parse_args_cases [of args c program] by (auto simp: usage_error_def)

lemma parse_args_Inl: "parse_args program args c = Inl e \<Longrightarrow>
   (\<exists>t. e = usage_error program t) \<or> e = (0, print_usage program) \<and> (\<exists>a \<in> set args. is_help a)"
  using parse_args_cases [of args c program] by auto

text \<open>C16: the argument loop accepts exactly the sequences of options that each come with a
  value their check admits, in which case the settings are those of the environment with the
  options applied from left to right, so that the last one wins.  Any other argument list
  ends the program: with exit code 2 and the usage text, or, only if it contains \<open>--help\<close>
  or \<open>-h\<close>, possibly with exit code 0.\<close>

theorem parse_args_iff_options:
  "(parse_args program args c = Inr c' \<longleftrightarrow>
     (\<exists>ps. args = render_options ps \<and> options_effect ps c = Some c')) \<and>
   (case parse_args program args c of
      Inr _ \<Rightarrow> True
    | Inl (code, text) \<Rightarrow>
        suffix (print_usage program) text \<and> (code = 2 \<or> code = 0 \<and> (\<exists>a \<in> set args. is_help a)))"
proof -
  have "case parse_args program args c of Inr _ \<Rightarrow> True | Inl (code, text) \<Rightarrow>
        suffix (print_usage program) text \<and> (code = 2 \<or> code = 0 \<and> (\<exists>a \<in> set args. is_help a))"
    using parse_args_Inl [of program args c] by (auto simp: usage_error_def suffix_def split: sum.splits)
  then show ?thesis using parse_args_Inr parse_args_render by blast
qed

text \<open>C17: whatever the environment and the arguments are, \<open>main\<close> either ends with an exit
  code of 2 and a message (0 for the usage text), or builds a configuration that
  \<open>server_config_validate\<close> accepts, with a bind address that \<open>inet_pton\<close> accepts or
  the wildcard: a server that cannot be created at this point lacks a resource.\<close>

theorem main_config_validates:
  assumes "inet_pton ''0.0.0.0''"
  shows "case main_config getenv inet_pton argv of
      Inl (code, text) \<Rightarrow> text \<noteq> [] \<and> (code = 2 \<or> code = 0 \<and> text = print_usage (hd argv))
    | Inr cf \<Rightarrow> server_config_validate (Some cf) \<and> (\<exists>ip. cf_bind_ip cf = Some ip \<and> inet_pton ip)"
proof -
  have usage: "print_usage program \<noteq> []" for program by (simp add: print_usage_def)
  show ?thesis
  proof (cases "cli_from_env getenv")
    case (Inl e)
    then have "fst e = 2 \<and> snd e \<noteq> []"
      by (auto simp: cli_from_env_def Let_def split: option.splits if_splits)
    with Inl show ?thesis by (cases e) (auto simp: main_config_def)
  next
    case (Inr c0)
    show ?thesis
    proof (cases "parse_args (hd argv) (tl argv) c0")
      case (Inl e)
      with Inr parse_args_Inl [OF Inl] usage show ?thesis by (auto simp: main_config_def usage_error_def)
    next
      case p: (Inr c)
      then have "cli_ok c"
        using Inr cli_from_env_ok options_effect_ok parse_args_Inr by blast
      with Inr p assms show ?thesis
        by (auto simp: main_config_def cli_ok_def server_config_validate_iff split: option.splits)
    qed
  qed
qed

theorem main_config_validates_witness:
  "main_config (\<lambda>v. if v = ''PORT'' then Some ''9090'' else None) (\<lambda>ip. ip = ''0.0.0.0'')
     [''server'', ''--threads'', ''4'', ''--api-key'', ''k''] =
     Inr \<lparr>cf_bind_ip = Some ''0.0.0.0'', cf_port = 9090, cf_thread_count = 4, cf_backlog = 64, cf_queue_size = 128,
          cf_db_path = Some ''./data/app.db'', cf_api_key = Some ''k''\<rparr> \<and>
   server_config_validate (Some \<lparr>cf_bind_ip = Some ''0.0.0.0'', cf_port = 9090, cf_thread_count = 4,
          cf_backlog = 64, cf_queue_size = 128, cf_db_path = Some ''./data/app.db'', cf_api_key = Some ''k''\<rparr>)"
  (is "?run = Inr ?cf \<and> ?valid")
proof -
  have run: "?run = Inr ?cf" by code_simp
  show ?thesis
    using main_config_validates [where inet_pton = "\<lambda>ip. ip = ''0.0.0.0''" and
        argv = "[''server'', ''--threads'', ''4'', ''--api-key'', ''k'']" and
        getenv = "\<lambda>v. if v = ''PORT'' then Some ''9090'' else None"]
    unfolding run by simp
qed

section \<open>Creating the directories\<close>

text \<open>What \<open>mkdir\<close> promises in a file system whose directories the process may
  write and in which no other file has the name of a directory: existing directories stay,
  and the call does not fail for a name whose parent exists, which is a directory afterwards.\<close>

definition writable_fs :: "(cstr \<Rightarrow> 'fs \<Rightarrow> mkdir_result \<times> 'fs) \<Rightarrow> ('fs \<Rightarrow> cstr \<Rightarrow> bool) \<Rightarrow> bool" where
  "writable_fs mkdir isdir \<longleftrightarrow>
     (\<forall>p q fs. isdir fs q \<longrightarrow> isdir (snd (mkdir p fs)) q) \<and>
     (\<forall>p fs. p \<noteq> [] \<and> CHR ''/'' \<notin> set p \<longrightarrow> fst (mkdir p fs) \<noteq> MkFail \<and> isdir (snd (mkdir p fs)) p) \<and>
     (\<forall>q name fs. name \<noteq> [] \<and> CHR ''/'' \<notin> set name \<and> (q = [] \<or> isdir fs q) \<longrightarrow>
        fst (mkdir (q @ CHR ''/'' # name) fs) \<noteq> MkFail \<and>
        isdir (snd (mkdir (q @ CHR ''/'' # name) fs)) (q @ CHR ''/'' # name))"

text \<open>No component of the path is empty, but for the root of an absolute path.\<close>

definition plain_path :: "cstr \<Rightarrow> bool" where
  "plain_path p \<longleftrightarrow> p \<noteq> [] \<and> last p \<noteq> CHR ''/'' \<and> \<not> sublist ''//'' p"

lemma strrchr_append [simp]: "c \<notin> set t \<Longrightarrow> strrchr (s @ c # t) c = Some (length s)"
proof -
  assume "c \<notin> set t"
  then have "length (takeWhile (\<lambda>x. x \<noteq> c) (rev t)) = length t"
    by (subst takeWhile_eq_all_conv [THEN iffD2]) auto
  then show ?thesis by (simp add: strrchr_def takeWhile_tail)
qed

lemma mkdir_walk_append:
  "mkdir_walk mkdir pre (s @ t) fs = mkdir_walk mkdir (pre @ s) t (mkdir_walk mkdir pre s fs)"
  by (induction s arbitrary: pre fs) auto

lemma mkdir_walk_name [simp]: "CHR ''/'' \<notin> set s \<Longrightarrow> mkdir_walk mkdir pre s fs = fs"
  by (induction s arbitrary: pre) auto

text \<open>Splitting a path at its last slash.\<close>

lemma last_slash:
  assumes "CHR ''/'' \<in> set p"
  obtains q name where "p = q @ CHR ''/'' # name" and "CHR ''/'' \<notin> set name"
  using split_list_last [OF assms] by blast

lemma plain_path_split:
  assumes "plain_path (q @ CHR ''/'' # name)" and "CHR ''/'' \<notin> set name"
  shows "name \<noteq> []" and "q \<noteq> [] \<Longrightarrow> plain_path q"
proof -
  show "name \<noteq> []" using assms by (auto simp: plain_path_def)
  assume q: "q \<noteq> []"
  have "last q \<noteq> CHR ''/''"
  proof
    assume "last q = CHR ''/''"
    with q have "q = butlast q @ ''/''" by (metis append_butlast_last_id)
    then have "q @ CHR ''/'' # name = butlast q @ ''//'' @ name" by (metis append_Cons append_Nil append_assoc)
    then have "sublist ''//'' (q @ CHR ''/'' # name)" unfolding sublist_def by blast
    then show False using assms(1) by (simp add: plain_path_def)
  qed
  moreover have "\<not> sublist ''//'' q"
    using assms(1) unfolding plain_path_def by (meson sublist_append_rightI sublist_order.order.trans)
  ultimately show "plain_path q" using q by (simp add: plain_path_def)
qed

text \<open>The loop followed by the last call, as one operation on a directory.\<close>

definition make_dirs :: "(cstr \<Rightarrow> 'fs \<Rightarrow> mkdir_result \<times> 'fs) \<Rightarrow> cstr \<Rightarrow> 'fs \<Rightarrow> mkdir_result \<times> 'fs" where
  "make_dirs mkdir d fs = mkdir d (mkdir_walk mkdir (take 1 d) (drop 1 d) fs)"

lemma make_dirs_nested:
  assumes "q \<noteq> []" and "CHR ''/'' \<notin> set name"
  shows "make_dirs mkdir (q @ CHR ''/'' # name) fs = mkdir (q @ CHR ''/'' # name) (snd (make_dirs mkdir q fs))"
  using assms by (cases q) (auto simp: make_dirs_def mkdir_walk_append)

lemma make_dirs_plain:
  assumes "writable_fs mkdir isdir" and "plain_path d"
  shows "fst (make_dirs mkdir d fs) \<noteq> MkFail \<and> isdir (snd (make_dirs mkdir d fs)) d"
  using assms(2)
proof (induction "length d" arbitrary: d rule: less_induct)
  case less
  show ?case
  proof (cases "CHR ''/'' \<in> set d")
    case False
    then have "make_dirs mkdir d fs = mkdir d fs"
      by (cases d) (auto simp: make_dirs_def)
    with False less.prems assms(1) show ?thesis by (simp add: writable_fs_def plain_path_def)
  next
    case True
    then obtain q name where d: "d = q @ CHR ''/'' # name" and n: "CHR ''/'' \<notin> set name" by (rule last_slash)
    with less.prems have name: "name \<noteq> []" and q: "q \<noteq> [] \<Longrightarrow> plain_path q"
      using plain_path_split by blast+
    show ?thesis
    proof (cases "q = []")
      case True
      with d n have "make_dirs mkdir d fs = mkdir ([] @ CHR ''/'' # name) fs" by (simp add: make_dirs_def)
      with True d n name assms(1) show ?thesis unfolding writable_fs_def by (metis append_Nil)
    next
      case False
      then have "isdir (snd (make_dirs mkdir q fs)) q" using less.hyps [of q] d q by simp
      with False d n name assms(1) show ?thesis
        unfolding writable_fs_def by (simp add: make_dirs_nested)
    qed
  qed
qed

text \<open>C18: \<open>ensure_db_dir\<close> does what its comment promises, \<open>mkdir -p\<close> for the
  directory of the database file: in a writable file system it succeeds and the directory
  exists afterwards, whichever of its ancestors were missing, for every path that fits its
  buffer and has no empty component.  A bare file name and a file in the root need no call,
  and a missing or empty path is refused.\<close>

theorem ensure_db_dir_creates_parents:
  assumes "writable_fs mkdir isdir" and "CHR ''/'' \<notin> set file" and "length d + length file + 2 \<le> 1024"
  shows "(plain_path d \<longrightarrow>
      (\<exists>fs'. ensure_db_dir mkdir (Some (d @ CHR ''/'' # file)) fs = (True, fs') \<and> isdir fs' d)) \<and>
    ensure_db_dir mkdir (Some (CHR ''/'' # file)) fs = (True, fs) \<and>
    ensure_db_dir mkdir (Some file) fs = (file \<noteq> [], fs) \<and> ensure_db_dir mkdir None fs = (False, fs)"
proof -
  have "ensure_db_dir mkdir (Some (d @ CHR ''/'' # file)) fs =
      (case make_dirs mkdir d fs of (r, fs') \<Rightarrow> (r \<noteq> MkFail, fs'))" if "d \<noteq> []"
    using that assms(2,3) by (simp add: ensure_db_dir_def snprintf_fits_def make_dirs_def)
  moreover have "ensure_db_dir mkdir (Some (CHR ''/'' # file)) fs = (True, fs)"
    using assms(2,3) strrchr_append [of "CHR ''/''" "file" "[]"] by (simp add: ensure_db_dir_def snprintf_fits_def)
  moreover have "ensure_db_dir mkdir (Some file) fs = (file \<noteq> [], fs)"
    using assms(2,3) by (simp add: ensure_db_dir_def snprintf_fits_def strrchr_def)
  ultimately show ?thesis
    using make_dirs_plain [OF assms(1), of d fs]
    by (auto simp: ensure_db_dir_def [of _ None] plain_path_def split: prod.splits)
qed

text \<open>A file system as the list of its directories, in which a directory without parent
  cannot be made.\<close>

definition list_mkdir :: "cstr \<Rightarrow> cstr list \<Rightarrow> mkdir_result \<times> cstr list" where
  "list_mkdir p fs =
     (if p \<in> set fs then (MkExists, fs)
      else case strrchr p CHR ''/'' of
             None \<Rightarrow> (MkOk, p # fs)
           | Some i \<Rightarrow> if i = 0 \<or> take i p \<in> set fs then (MkOk, p # fs) else (MkFail, fs))"

lemma list_mkdir_writable: "writable_fs list_mkdir (\<lambda>fs p. p \<in> set fs)"
proof -
  have "fst (list_mkdir p fs) \<noteq> MkFail \<and> p \<in> set (snd (list_mkdir p fs))" if "CHR ''/'' \<notin> set p" for p fs
    using that by (simp add: list_mkdir_def strrchr_def)
  moreover have "fst (list_mkdir (q @ CHR ''/'' # name) fs) \<noteq> MkFail \<and>
      q @ CHR ''/'' # name \<in> set (snd (list_mkdir (q @ CHR ''/'' # name) fs))"
    if "CHR ''/'' \<notin> set name" "q = [] \<or> q \<in> set fs" for q name fs
    using that strrchr_append [of "CHR ''/''" name q] by (auto simp: list_mkdir_def)
  moreover have "q \<in> set (snd (list_mkdir p fs))" if "q \<in> set fs" for p q fs
    using that by (auto simp: list_mkdir_def split: option.splits)
  ultimately show ?thesis unfolding writable_fs_def by blast
qed

theorem ensure_db_dir_creates_parents_witness:
  "list_mkdir ''srv/data/a'' [''srv''] = (MkFail, [''srv'']) \<and>
   (\<exists>fs'. ensure_db_dir list_mkdir (Some ''srv/data/a/app.db'') [''srv''] = (True, fs') \<and> ''srv/data/a'' \<in> set fs')"
proof -
  have "plain_path ''srv/data/a''" by (simp add: plain_path_def sublist_Cons_right)
  then have "\<exists>fs'. ensure_db_dir list_mkdir (Some (''srv/data/a'' @ CHR ''/'' # ''app.db'')) [''srv''] = (True, fs') \<and>
      ''srv/data/a'' \<in> set fs'"
    using ensure_db_dir_creates_parents [OF list_mkdir_writable, of "''app.db''" "''srv/data/a''" "[''srv'']"] by simp
  moreover have "list_mkdir ''srv/data/a'' [''srv''] = (MkFail, [''srv''])" by code_simp
  ultimately show ?thesis by simp
qed

end
