(* ===== verification/Console.thy ===== *)
theory Console
  imports Clib "HOL-Library.Word" "HOL-Library.Monad_Syntax"
begin

unbundle bit_operations_syntax

text \<open>
  The terminal output of \<open>src/console.c\<close>.  The environment of the process (terminal,
  variables, window size, and the order in which the compiler evaluates the arguments of a
  call) is the record \<open>tty_env\<close>.  The static variables of the module and what was
  written to \<open>stdout\<close> form the record \<open>console\<close>; a \<open>char *\<close> that the module
  hands out is a \<open>cptr\<close>, either one of the eight static slots, whose content later calls
  overwrite, or a string that nobody changes.  An operation returns \<open>None\<close> if it reads or
  writes outside of an array.  Pauses (\<open>nanosleep\<close>) and \<open>fflush\<close> have no effect on
  what is written and are left out.
\<close>

section \<open>State and capabilities\<close>

abbreviation (input) CONSOLE_MIN_WIDTH :: nat where "CONSOLE_MIN_WIDTH \<equiv> 48"
abbreviation (input) CONSOLE_MAX_WIDTH :: nat where "CONSOLE_MAX_WIDTH \<equiv> 74"
abbreviation (input) CONSOLE_FALLBACK_WIDTH :: nat where "CONSOLE_FALLBACK_WIDTH \<equiv> 80"
abbreviation (input) SLOT_COUNT :: nat where "SLOT_COUNT \<equiv> 8"
abbreviation (input) SLOT_SIZE :: nat where "SLOT_SIZE \<equiv> 512"
abbreviation (input) RULE_BUFFER :: nat where "RULE_BUFFER \<equiv> CONSOLE_MAX_WIDTH * 4 + 16"
abbreviation (input) ROW_BUFFER :: nat where "ROW_BUFFER \<equiv> CONSOLE_MAX_WIDTH * 2 + 16"

record tty_env =
  te_isatty :: bool
  te_getenv :: "cstr \<Rightarrow> cstr option"
  te_winsize :: "nat option"
  te_order :: "nat \<Rightarrow> nat list"

record console =
  cs_slots :: "cstr list"
  cs_index :: nat
  cs_color :: int
  cs_utf8 :: int
  cs_out :: cstr

datatype cptr = Slot nat | Text cstr

definition console_start :: console where
  "console_start = \<lparr>cs_slots = replicate SLOT_COUNT [], cs_index = 0, cs_color = -1, cs_utf8 = -1, cs_out = []\<rparr>"

definition deref :: "console \<Rightarrow> cptr \<Rightarrow> cstr" where
  "deref st p = (case p of Slot i \<Rightarrow> cs_slots st ! i | Text t \<Rightarrow> t)"

definition console_is_tty :: "tty_env \<Rightarrow> bool" where
  "console_is_tty te = te_isatty te"

definition env_flag_set :: "tty_env \<Rightarrow> cstr \<Rightarrow> bool" where
  "env_flag_set te name =
     (case te_getenv te name of None \<Rightarrow> False | Some v \<Rightarrow> v \<noteq> [] \<and> v \<noteq> ''0'')"

definition color_enabled :: "tty_env \<Rightarrow> console \<Rightarrow> bool \<times> console" where
  "color_enabled te st =
     (let st' = (if cs_color st < 0
                 then st\<lparr>cs_color := (if env_flag_set te ''NO_COLOR'' \<or> \<not> console_is_tty te then 0 else 1)\<rparr>
                 else st)
      in (cs_color st' = 1, st'))"

text \<open>The comparison at \<open>cursor\<close> and the loop over a variable's value.\<close>

definition utf8_at :: "cstr \<Rightarrow> bool" where
  "utf8_at s \<longleftrightarrow>
     length s \<ge> 5 \<and> (s ! 0 = CHR ''U'' \<or> s ! 0 = CHR ''u'') \<and> (s ! 1 = CHR ''T'' \<or> s ! 1 = CHR ''t'') \<and>
     (s ! 2 = CHR ''F'' \<or> s ! 2 = CHR ''f'') \<and> s ! 3 = CHR ''-'' \<and> s ! 4 = CHR ''8''"

fun mentions_utf8 :: "cstr \<Rightarrow> bool" where
  "mentions_utf8 [] = False"
| "mentions_utf8 (c # s) = (if utf8_at (c # s) then True else mentions_utf8 s)"

fun any_utf8 :: "tty_env \<Rightarrow> cstr list \<Rightarrow> bool" where
  "any_utf8 te [] = False"
| "any_utf8 te (var # vars) =
     (case te_getenv te var of
        None \<Rightarrow> any_utf8 te vars
      | Some v \<Rightarrow> if v = [] then any_utf8 te vars else if mentions_utf8 v then True else any_utf8 te vars)"

definition console_is_utf8 :: "tty_env \<Rightarrow> console \<Rightarrow> bool \<times> console" where
  "console_is_utf8 te st =
     (if cs_utf8 st \<ge> 0 then (cs_utf8 st = 1, st)
      else (let utf8 = any_utf8 te [''LC_ALL'', ''LC_CTYPE'', ''LANG'']
            in (utf8, st\<lparr>cs_utf8 := (if utf8 then 1 else 0)\<rparr>)))"

definition unicode_enabled :: "tty_env \<Rightarrow> console \<Rightarrow> bool \<times> console" where
  "unicode_enabled te st = (case console_is_utf8 te st of (u, st') \<Rightarrow> (u \<and> console_is_tty te, st'))"

definition env_columns :: "tty_env \<Rightarrow> nat" where
  "env_columns te =
     (case te_getenv te ''COLUMNS'' of
        None \<Rightarrow> 0
      | Some v \<Rightarrow>
          if v = [] then 0
          else (case strtol v of (parsed, rest, _) \<Rightarrow>
                  if rest \<noteq> v \<and> rest = [] \<and> parsed > 0 then nat parsed else 0))"

definition console_width :: "tty_env \<Rightarrow> nat" where
  "console_width te =
     (let c0 = (case te_winsize te of Some ws_col \<Rightarrow> if ws_col > 0 then ws_col else 0 | None \<Rightarrow> 0);
          c1 = (if c0 = 0 then env_columns te else c0);
          c2 = (if c1 = 0 then CONSOLE_FALLBACK_WIDTH else c1);
          c3 = (if c2 > 4 then c2 - 4 else c2);
          c4 = (if c3 < CONSOLE_MIN_WIDTH then CONSOLE_MIN_WIDTH else c3)
      in if c4 > CONSOLE_MAX_WIDTH then CONSOLE_MAX_WIDTH else c4)"

section \<open>Text measurement\<close>

definition is_escape_start :: "char \<Rightarrow> bool" where
  "is_escape_start c \<longleftrightarrow> c = ESC"

text \<open>\<open>(*p & 0xC0) == 0x80\<close>.\<close>

definition is_continuation :: "char \<Rightarrow> bool" where
  "is_continuation c \<longleftrightarrow> uchar c AND 0xC0 = 0x80"

text \<open>The loop from \<open>p\<close> on.  The inner loop stops at a letter or at the terminator; in
  the second case the increment of the outer loop moves \<open>p\<close> beyond the terminator.\<close>

function visible_loop :: "cstr \<Rightarrow> nat option" where
  "visible_loop s =
     (case s of
        [] \<Rightarrow> Some 0
      | c # cs \<Rightarrow>
          if is_escape_start c \<and> cs \<noteq> [] \<and> hd cs = CHR ''[''
          then (case dropWhile (\<lambda>x. \<not> isalpha x) cs of
                  [] \<Rightarrow> None
                | _ # rest \<Rightarrow> visible_loop rest)
          else map_option (\<lambda>w. if is_continuation c then w else w + 1) (visible_loop cs))"
  by pat_completeness auto
termination
  by (relation "measure length") (auto dest: dropWhile_Cons_shorter intro: less_SucI)

declare visible_loop.simps [simp del]

definition console_visible_width :: "cstr option \<Rightarrow> nat option" where
  "console_visible_width text = (case text of None \<Rightarrow> Some 0 | Some t \<Rightarrow> visible_loop t)"

section \<open>Rotating buffers\<close>

definition next_slot :: "console \<Rightarrow> nat \<times> console" where
  "next_slot st =
     (let i = cs_index st
      in (i, st\<lparr>cs_index := (i + 1) mod SLOT_COUNT, cs_slots := (cs_slots st)[i := []]\<rparr>))"

definition set_slot :: "nat \<Rightarrow> cstr \<Rightarrow> console \<Rightarrow> console" where
  "set_slot i t st = st\<lparr>cs_slots := (cs_slots st)[i := t]\<rparr>"

text \<open>A \<open>char *\<close> argument after \<open>if (text == NULL) text = ""\<close>.\<close>

definition text_of :: "console \<Rightarrow> cptr option \<Rightarrow> cstr" where
  "text_of st p = (case p of None \<Rightarrow> [] | Some q \<Rightarrow> deref st q)"

function pad_loop :: "cstr \<Rightarrow> nat \<Rightarrow> nat \<Rightarrow> cstr" where
  "pad_loop out used width =
     (if used < width \<and> length out + 1 < SLOT_SIZE then pad_loop (out @ '' '') (used + 1) width else out)"
  by pat_completeness auto
termination
  by (relation "measure (\<lambda>(out, used, width). width - used)") auto

declare pad_loop.simps [simp del]

definition console_pad_right :: "cptr option \<Rightarrow> nat \<Rightarrow> console \<Rightarrow> (cptr \<times> console) option" where
  "console_pad_right text width st =
     (case next_slot st of (i, st1) \<Rightarrow>
        (let out = snprintf_buf SLOT_SIZE (text_of st1 text)
         in do {
           used \<leftarrow> console_visible_width (Some out);
           Some (Slot i, set_slot i (pad_loop out used width) st1)
         }))"

text \<open>The text of \<open>%*s\<close> with an empty string: the width is an \<open>int\<close>, and a negative
  one counts as its absolute value.\<close>

definition spaces :: "nat \<Rightarrow> cstr" where
  "spaces n = replicate (nat (abs (signed_take_bit 31 (int n)))) CHR '' ''"

definition console_center :: "cptr option \<Rightarrow> nat \<Rightarrow> console \<Rightarrow> (cptr \<times> console) option" where
  "console_center text width st =
     (case next_slot st of (i, st1) \<Rightarrow>
        do {
          used \<leftarrow> console_visible_width (Some (text_of st1 text));
          let left = (if used \<ge> width then 0 else (width - used) div 2);
          let right = (if used \<ge> width then 0 else width - used - left);
          let formatted = spaces left @ text_of st1 text @ spaces right;
          Some (Slot i, set_slot i (if length formatted > 2147483647 then []
                                    else snprintf_buf SLOT_SIZE formatted) st1)
        })"

definition color_code :: "cstr \<Rightarrow> cstr" where
  "color_code name =
     (if name = ''bold'' then ''1''
      else if name = ''white'' then ''1;38;5;255''
      else if name = ''dim'' then ''38;5;244''
      else if name = ''amber'' then ''38;5;220''
      else if name = ''hot'' then ''1;38;5;220''
      else if name = ''gold'' then ''38;5;178''
      else if name = ''green'' then ''38;5;71''
      else if name = ''cyan'' then ''38;5;215''
      else if name = ''yellow'' then ''38;5;220''
      else if name = ''red'' then ''38;5;203''
      else if name = ''magenta'' then ''38;5;170''
      else ''0'')"

definition console_colorize :: "tty_env \<Rightarrow> cstr \<Rightarrow> cptr option \<Rightarrow> console \<Rightarrow> cptr \<times> console" where
  "console_colorize te name text st =
     (case color_enabled te st of (on, st1) \<Rightarrow>
        (case text of
           None \<Rightarrow> (Text [], st1)
         | Some p \<Rightarrow>
             if \<not> on then (p, st1)
             else (case next_slot st1 of (i, st2) \<Rightarrow>
                     (Slot i,
                      set_slot i (snprintf_buf SLOT_SIZE
                        ([ESC] @ ''['' @ color_code name @ ''m'' @ deref st2 p @ [ESC] @ ''[0m'')) st2))))"

section \<open>Glyphs\<close>

record Glyph =
  gl_unicode :: cstr
  gl_ascii :: cstr

definition glyph :: "tty_env \<Rightarrow> Glyph \<Rightarrow> console \<Rightarrow> cstr \<times> console" where
  "glyph te g st = (case unicode_enabled te st of (u, st') \<Rightarrow> (if u then gl_unicode g else gl_ascii g, st'))"

definition G_HZ :: Glyph where "G_HZ = \<lparr>gl_unicode = [CHR 0xE2, CHR 0x94, CHR 0x80], gl_ascii = ''-''\<rparr>"
definition G_VZ :: Glyph where "G_VZ = \<lparr>gl_unicode = [CHR 0xE2, CHR 0x94, CHR 0x82], gl_ascii = ''|''\<rparr>"
definition G_TL :: Glyph where "G_TL = \<lparr>gl_unicode = [CHR 0xE2, CHR 0x95, CHR 0xAD], gl_ascii = ''+''\<rparr>"
definition G_TR :: Glyph where "G_TR = \<lparr>gl_unicode = [CHR 0xE2, CHR 0x95, CHR 0xAE], gl_ascii = ''+''\<rparr>"
definition G_BL :: Glyph where "G_BL = \<lparr>gl_unicode = [CHR 0xE2, CHR 0x95, CHR 0xB0], gl_ascii = ''+''\<rparr>"
definition G_BR :: Glyph where "G_BR = \<lparr>gl_unicode = [CHR 0xE2, CHR 0x95, CHR 0xAF], gl_ascii = ''+''\<rparr>"
definition G_ARROW :: Glyph where "G_ARROW = \<lparr>gl_unicode = [CHR 0xE2, CHR 0x86, CHR 0x92], gl_ascii = ''->''\<rparr>"
definition G_OK :: Glyph where "G_OK = \<lparr>gl_unicode = [CHR 0xE2, CHR 0x9C, CHR 0x93], gl_ascii = ''OK''\<rparr>"
definition G_RAD :: Glyph where "G_RAD = \<lparr>gl_unicode = [CHR 0xE2, CHR 0x98, CHR 0xA2], gl_ascii = ''[RADIATION]''\<rparr>"
definition G_TREE :: Glyph where
  "G_TREE = \<lparr>gl_unicode = [CHR 0xE2, CHR 0x94, CHR 0x9C, CHR 0xE2, CHR 0x94, CHR 0x80], gl_ascii = ''|-''\<rparr>"

text \<open>\<open>repeat\<close>: \<open>out\<close> is what the buffer holds before \<open>at\<close>.\<close>

fun repeat_loop :: "nat \<Rightarrow> cstr \<Rightarrow> nat \<Rightarrow> cstr \<Rightarrow> cstr" where
  "repeat_loop capacity unit_text 0 out = out"
| "repeat_loop capacity unit_text (Suc n) out =
     (if length out + length unit_text + 1 \<ge> capacity then out
      else repeat_loop capacity unit_text n (out @ unit_text))"

definition repeat :: "nat \<Rightarrow> cstr \<Rightarrow> nat \<Rightarrow> cstr" where
  "repeat capacity unit_text count = repeat_loop capacity unit_text count []"

section \<open>Printing\<close>

text \<open>An argument expression leaves a pointer, a statement leaves a state.\<close>

type_synonym arg = "console \<Rightarrow> (cptr \<times> console) option"
type_synonym stmt = "console \<Rightarrow> console option"

definition str :: "cstr \<Rightarrow> arg" where
  "str t = (\<lambda>st. Some (Text t, st))"

definition glyph_arg :: "tty_env \<Rightarrow> Glyph \<Rightarrow> arg" where
  "glyph_arg te g = (\<lambda>st. case glyph te g st of (t, st') \<Rightarrow> Some (Text t, st'))"

definition paint :: "tty_env \<Rightarrow> cstr \<Rightarrow> arg \<Rightarrow> arg" where
  "paint te name a = (\<lambda>st. do { (p, st1) \<leftarrow> a st; Some (console_colorize te name (Some p) st1) })"

text \<open>The arguments are evaluated in the order the compiler chose; then the format is
  expanded with what the pointers refer to at that time.\<close>

fun eval_in_order :: "nat list \<Rightarrow> arg list \<Rightarrow> cptr list \<Rightarrow> console \<Rightarrow> (cptr list \<times> console) option" where
  "eval_in_order [] args ps st = Some (ps, st)"
| "eval_in_order (i # is) args ps st = do { (p, st1) \<leftarrow> (args ! i) st; eval_in_order is args (ps[i := p]) st1 }"

definition eval_args :: "tty_env \<Rightarrow> arg list \<Rightarrow> console \<Rightarrow> (cptr list \<times> console) option" where
  "eval_args te args = eval_in_order (te_order te (length args)) args (replicate (length args) (Text []))"

function format_s :: "cstr \<Rightarrow> cstr list \<Rightarrow> cstr" where
  "format_s fmt texts =
     (case fmt of
        [] \<Rightarrow> []
      | c # f \<Rightarrow>
          if c = CHR ''%'' \<and> f \<noteq> [] \<and> hd f = CHR ''s'' \<and> texts \<noteq> [] then hd texts @ format_s (tl f) (tl texts)
          else c # format_s f texts)"
  by pat_completeness auto
termination
  by (relation "measure (\<lambda>(fmt, texts). length fmt)") auto

declare format_s.simps [simp del]

definition put :: "cstr \<Rightarrow> stmt" where
  "put t = (\<lambda>st. Some (st\<lparr>cs_out := cs_out st @ t\<rparr>))"

definition printf :: "tty_env \<Rightarrow> cstr \<Rightarrow> arg list \<Rightarrow> stmt" where
  "printf te fmt args =
     (\<lambda>st. do { (ps, st1) \<leftarrow> eval_args te args st; put (format_s fmt (map (deref st1) ps)) st1 })"

fun seq :: "stmt list \<Rightarrow> stmt" where
  "seq [] st = Some st"
| "seq (m # ms) st = do { st1 \<leftarrow> m st; seq ms st1 }"

text \<open>\<open>snprintf(buf, n, "%s", a)\<close> into a local array.\<close>

definition copied :: "nat \<Rightarrow> arg \<Rightarrow> console \<Rightarrow> (cstr \<times> console) option" where
  "copied n a st = do { (p, st1) \<leftarrow> a st; Some (snprintf_buf n (deref st1 p), st1) }"

text \<open>A centred text, painted and copied into a local array of \<open>n\<close> bytes.\<close>

definition centered :: "tty_env \<Rightarrow> nat \<Rightarrow> cstr \<Rightarrow> cstr \<Rightarrow> nat \<Rightarrow> console \<Rightarrow> (cstr \<times> console) option" where
  "centered te n color text width =
     copied n (paint te color (console_center (Some (Text text)) width))"

section \<open>Boxes\<close>

definition draw_rule :: "tty_env \<Rightarrow> nat \<Rightarrow> cstr \<Rightarrow> stmt" where
  "draw_rule te inner color st =
     (case glyph te G_HZ st of (hz, st1) \<Rightarrow> do {
        (painted, st2) \<leftarrow> copied (RULE_BUFFER + 32) (paint te color (str (repeat RULE_BUFFER hz inner))) st1;
        printf te (''%s%s%s'' @ [LF])
          [paint te ''dim'' (glyph_arg te G_TL), str painted, paint te ''dim'' (glyph_arg te G_TR)] st2
      })"

text \<open>The truncation of \<open>draw_row\<close>: the length of a sequence from its first byte, the
  copying of one sequence, and the loop over the cells, with \<open>safe\<close> what the array holds
  before \<open>at\<close>.\<close>

definition utf8_seq :: "char \<Rightarrow> nat" where
  "utf8_seq c =
     (if uchar c AND 0xF8 = 0xF0 then 4
      else if uchar c AND 0xF0 = 0xE0 then 3
      else if uchar c AND 0xE0 = 0xC0 then 2
      else 1)"

fun copy_seq :: "nat \<Rightarrow> nat \<Rightarrow> cstr \<Rightarrow> cstr \<Rightarrow> cstr \<times> cstr" where
  "copy_seq seq_len 0 p safe = (p, safe)"
| "copy_seq seq_len (Suc n) p safe =
     (if p \<noteq> [] \<and> length safe + seq_len < ROW_BUFFER then copy_seq seq_len n (tl p) (safe @ [hd p]) else (p, safe))"

function cut_loop :: "nat \<Rightarrow> nat \<Rightarrow> cstr \<Rightarrow> cstr \<Rightarrow> cstr" where
  "cut_loop room cells p safe =
     (if p \<noteq> [] \<and> cells + 1 < room
      then (case copy_seq (utf8_seq (hd p)) (utf8_seq (hd p)) p safe of
              (p', safe') \<Rightarrow> cut_loop room (cells + 1) p' safe')
      else safe)"
  by pat_completeness auto
termination
  by (relation "measure (\<lambda>(room, cells, p, safe). room - cells)") auto

declare cut_loop.simps [simp del]

definition row_cut :: "nat \<Rightarrow> cstr \<Rightarrow> cstr option" where
  "row_cut room text =
     (let safe = cut_loop room 0 text []
      in if length safe + 1 < ROW_BUFFER then Some (safe @ ''.'') else None)"

definition draw_row :: "tty_env \<Rightarrow> cstr \<Rightarrow> nat \<Rightarrow> cstr \<Rightarrow> stmt" where
  "draw_row te text inner color st =
     do {
       used \<leftarrow> console_visible_width (Some text);
       let room = (if inner \<ge> 3 then inner - 2 else inner);
       shown \<leftarrow> (if used > room then row_cut room text else Some text);
       (painted, st1) \<leftarrow> centered te ROW_BUFFER color shown inner st;
       printf te (''%s%s%s'' @ [LF])
         [paint te ''dim'' (glyph_arg te G_VZ), str painted, paint te ''dim'' (glyph_arg te G_VZ)] st1
     }"

definition draw_blank :: "tty_env \<Rightarrow> nat \<Rightarrow> stmt" where
  "draw_blank te inner st =
     do {
       (painted, st1) \<leftarrow> copied ROW_BUFFER (console_center (Some (Text [])) inner) st;
       printf te (''%s%s%s'' @ [LF])
         [paint te ''dim'' (glyph_arg te G_VZ), str painted, paint te ''dim'' (glyph_arg te G_VZ)] st1
     }"

text \<open>\<open>unicode_enabled() ? a : b\<close> as an argument.\<close>

definition unicode_or :: "tty_env \<Rightarrow> cstr \<Rightarrow> cstr \<Rightarrow> arg" where
  "unicode_or te a b = (\<lambda>st. case unicode_enabled te st of (u, st') \<Rightarrow> Some (Text (if u then a else b), st'))"

definition draw_closing :: "tty_env \<Rightarrow> nat \<Rightarrow> stmt" where
  "draw_closing te inner st =
     (case glyph te G_HZ st of (hz, st1) \<Rightarrow>
       (let gap = 6;
            lead = (if inner > gap then (inner - gap) div 2 else 0);
            trail = (if inner > gap then inner - gap - lead else 0)
        in do {
          (left_p, st2) \<leftarrow> copied (RULE_BUFFER + 32) (paint te ''dim'' (str (repeat RULE_BUFFER hz lead))) st1;
          (right_p, st3) \<leftarrow> copied (RULE_BUFFER + 32) (paint te ''dim'' (str (repeat RULE_BUFFER hz trail))) st2;
          printf te (''%s%s%s%s%s'' @ [LF])
            [paint te ''dim'' (glyph_arg te G_BL), str left_p,
             paint te ''amber'' (unicode_or te (concat (replicate 6 [CHR 0xE2, CHR 0x96, CHR 0x80])) ''======''),
             str right_p, paint te ''dim'' (glyph_arg te G_BR)] st3
        }))"

definition console_clear :: "tty_env \<Rightarrow> stmt" where
  "console_clear te st =
     (if \<not> console_is_tty te then Some st else put ([ESC] @ ''[H'' @ [ESC] @ ''[2J'') st)"

section \<open>Boot sequence\<close>

definition draw_reactor_mark :: "tty_env \<Rightarrow> stmt" where
  "draw_reactor_mark te st =
     (case glyph te G_RAD st of (rad, st1) \<Rightarrow> do {
        (mark_p, st2) \<leftarrow> centered te 64 ''hot'' rad 16 st1;
        st3 \<leftarrow> put (mark_p @ [LF]) st2;
        (word_p, st4) \<leftarrow> centered te 64 ''gold'' ''REACTOR'' 16 st3;
        put (word_p @ [LF, LF]) st4
      })"

definition boot_line :: "tty_env \<Rightarrow> nat \<Rightarrow> cstr \<Rightarrow> cstr \<Rightarrow> cstr \<Rightarrow> cstr \<Rightarrow> stmt" where
  "boot_line te inner tag message status color st =
     (let left = snprintf_buf 192 (''  ['' @ ljust 9 tag @ ''] '' @ message);
          right = snprintf_buf 48 (''['' @ status @ '']'')
      in do {
        left_width \<leftarrow> console_visible_width (Some left);
        right_width \<leftarrow> console_visible_width (Some right);
        let gap = (if inner > left_width + right_width then (inner - left_width - right_width) div 2 else 1);
        (left_p, st1) \<leftarrow> copied 256 (paint te ''gold'' (str left)) st;
        (right_p, st2) \<leftarrow> copied 64 (paint te color (str right)) st1;
        put ([CR] @ ''  '' @ left_p @ spaces gap @ right_p @ [ESC] @ ''[K'') st2
      })"

definition boot_steps :: "(cstr \<times> cstr) list" where
  "boot_steps =
     [(''CORE'', ''reactor initialization''), (''DB'', ''sqlite store online''), (''HTTP'', ''listener armed''),
      (''POOL'', ''thread pool initialized''), (''RAD'', ''thermal systems nominal'')]"

definition boot_bar :: "tty_env \<Rightarrow> nat \<Rightarrow> nat \<Rightarrow> stmt" where
  "boot_bar te bar_width percent st =
     (let done_cells = bar_width * percent div 100
      in case unicode_enabled te st of (u1, st1) \<Rightarrow> (case unicode_enabled te st1 of (u2, st2) \<Rightarrow>
           do {
             let filled = repeat RULE_BUFFER (if u1 then [CHR 0xE2, CHR 0x96, CHR 0x88] else ''#'') done_cells;
             let rest = repeat RULE_BUFFER (if u2 then [CHR 0xE2, CHR 0x96, CHR 0x91] else ''.'') (bar_width - done_cells);
             (f_p, st3) \<leftarrow> copied (RULE_BUFFER + 32) (paint te ''amber'' (str filled)) st2;
             (r_p, st4) \<leftarrow> copied (RULE_BUFFER + 32) (paint te ''dim'' (str rest)) st3;
             put ([CR] @ ''  '' @ f_p @ r_p @ ''  '' @ rjust 3 (show_nat percent) @ ''%'' @ [ESC] @ ''[K'') st4
           }))"

text \<open>\<open>printf("  %s\\n", ...)\<close> of a centred and painted text, with the text around it.\<close>

definition put_centered :: "tty_env \<Rightarrow> cstr \<Rightarrow> cstr \<Rightarrow> nat \<Rightarrow> cstr \<Rightarrow> cstr \<Rightarrow> stmt" where
  "put_centered te color text inner lead_text trail_text st =
     do { (t, st1) \<leftarrow> centered te (RULE_BUFFER + 32) color text inner st; put (lead_text @ t @ trail_text) st1 }"

definition console_print_boot :: "tty_env \<Rightarrow> stmt" where
  "console_print_boot te st =
     (if \<not> console_is_tty te \<or> env_flag_set te ''CONSOLE_NO_ANIMATION'' \<or> env_flag_set te ''CI'' then Some st
      else
        (let inner = console_width te - 2;
             bar_width = (if inner > 30 then inner - 30 else 16)
         in case glyph te G_HZ st of (hz, st1) \<Rightarrow> (case glyph te G_OK st1 of (ok, st2) \<Rightarrow>
              (case glyph te G_RAD st2 of (rad, st3) \<Rightarrow>
                seq ([put [LF], draw_reactor_mark te,
                      put_centered te ''gold'' ''NUCLEAR REACTOR - CORE BOOT'' inner ''  '' [LF],
                      put_centered te ''dim'' hz inner ''  '' [LF, LF]] @
                     map (\<lambda>(tag, message). boot_line te inner tag message ok ''amber'') boot_steps @
                     map (boot_bar te bar_width) [0, 20, 40, 60, 80, 100] @
                     [put_centered te ''hot'' ''CORE ONLINE'' inner ([LF, LF] @ ''  '') [LF, LF]]) st3))))"

section \<open>Banner and shutdown\<close>

record ConsoleInfo =
  ci_bind_ip :: "cstr option"
  ci_link_host :: cstr
  ci_db_path :: "cstr option"
  ci_version :: "cstr option"
  ci_port :: "16 word"
  ci_workers :: int
  ci_auth_protected :: bool

definition banner_endpoints :: "(cstr \<times> cstr) list" where
  "banner_endpoints =
     [(''HEALTH'', ''/health''), (''METRICS'', ''/metrics''), (''KV'', ''/api/kv?limit=50''),
      (''NOTES'', ''/api/notes?limit=50'')]"

definition banner_url :: "ConsoleInfo \<Rightarrow> cstr \<Rightarrow> cstr" where
  "banner_url info path =
     snprintf_buf 192 (''http://'' @ ci_link_host info @ '':'' @ show_nat (unat (ci_port info)) @ path)"

definition or_mark :: "cstr option \<Rightarrow> cstr" where
  "or_mark t = (case t of None \<Rightarrow> ''?'' | Some s \<Rightarrow> s)"

text \<open>The box: title, brand and version between blank rows.\<close>

definition banner_box :: "tty_env \<Rightarrow> ConsoleInfo \<Rightarrow> cstr \<Rightarrow> cstr \<Rightarrow> stmt list" where
  "banner_box te info dot rad =
     (let inner = console_width te - 2;
          stack = snprintf_buf 160 (''HTTP/1.1'' @ dot @ ''JSON'' @ dot @ ''SQLITE WAL'');
          version_line = snprintf_buf 192 (''v'' @ or_mark (ci_version info) @ dot @ stack);
          title = snprintf_buf 64 (rad @ '' REACTOR CORE '' @ rad);
          brand = snprintf_buf 80 (rad @ '' NUCLEAR C API SERVER '' @ rad)
      in [draw_rule te inner ''dim'', draw_blank te inner, draw_row te title inner ''hot'', draw_blank te inner,
          draw_row te brand inner ''amber'', draw_blank te inner, draw_row te version_line inner ''gold'',
          draw_blank te inner, draw_row te ''RADIATION STATUS: NOMINAL'' inner ''amber'', draw_blank te inner,
          draw_closing te inner])"

definition padded_gold :: "tty_env \<Rightarrow> cstr \<Rightarrow> nat \<Rightarrow> arg" where
  "padded_gold te t n = paint te ''gold'' (console_pad_right (Some (Text t)) n)"

definition auth_arg :: "tty_env \<Rightarrow> ConsoleInfo \<Rightarrow> arg" where
  "auth_arg te info =
     (if ci_auth_protected info then paint te ''red'' (str ''PROTECTED'') else paint te ''amber'' (str ''OPEN''))"

text \<open>What follows the box.\<close>

definition banner_links :: "tty_env \<Rightarrow> ConsoleInfo \<Rightarrow> stmt list" where
  "banner_links te info =
     [printf te ([LF] @ ''  %s%s%s'' @ [LF])
        [paint te ''hot'' (str ''LAB''), paint te ''dim'' (str '' / INTERACTIVE PLAYGROUND''), str []],
      printf te (''    %s %s'' @ [LF])
        [paint te ''amber'' (glyph_arg te G_ARROW), paint te ''cyan'' (str (banner_url info ''/''))],
      printf te ([LF] @ ''  %s%s%s'' @ [LF])
        [paint te ''hot'' (str ''ENDPOINTS''), paint te ''dim'' (str '' click to open''), str []]] @
     map (\<lambda>(name, path).
        printf te (''    %s %s %s %s'' @ [LF])
          [paint te ''gold'' (glyph_arg te G_TREE), paint te ''bold'' (str name), paint te ''dim'' (str ''->''),
           paint te ''cyan'' (str (banner_url info path))]) banner_endpoints"

definition banner_configuration :: "tty_env \<Rightarrow> ConsoleInfo \<Rightarrow> stmt list" where
  "banner_configuration te info =
     [printf te ([LF] @ ''  %s%s%s'' @ [LF]) [paint te ''hot'' (str ''CORE CONFIGURATION''), str [], str []],
      printf te (''    %s %s'' @ [LF]) [padded_gold te ''bind'' 10, str (or_mark (ci_bind_ip info))],
      printf te (''    %s %s'' @ [LF])
        [padded_gold te ''workers'' 10, str (snprintf_buf 32 (show_int (ci_workers info)))],
      printf te (''    %s %s'' @ [LF]) [padded_gold te ''database'' 10, str (or_mark (ci_db_path info))],
      printf te (''    %s %s'' @ [LF]) [padded_gold te ''auth'' 10, auth_arg te info]]"

definition banner_hints :: "tty_env \<Rightarrow> stmt list" where
  "banner_hints te =
     [printf te ([LF] @ ''  %s%s%s'' @ [LF])
        [paint te ''hot'' (str ''HINTS''), paint te ''dim'' (str '' things to try''), str []]] @
     map (\<lambda>hint. printf te (''    %s %s'' @ [LF])
            [paint te ''gold'' (glyph_arg te G_ARROW), paint te ''dim'' (str hint)])
       [''every lab section ships with prefilled examples'',
        ''make run RUN_API_KEY=demo  ->  enables the vault (401 / 403)'',
        ''Ctrl-C  ->  reactor shutdown sequence'']"

definition banner_status :: "tty_env \<Rightarrow> ConsoleInfo \<Rightarrow> cstr \<Rightarrow> stmt list" where
  "banner_status te info rad =
     [printf te ([LF] @ ''  %s %s%s'' @ [LF])
        [paint te ''hot'' (str rad), paint te ''hot'' (str ''SYSTEM STATUS''), str []],
      printf te (''    %s %s %s'' @ [LF])
        [padded_gold te ''core'' 12, paint te ''amber'' (str ''ONLINE''),
         paint te ''dim'' (str '' thread pool accepting'')],
      printf te (''    %s %s %s'' @ [LF])
        [padded_gold te ''radiation'' 12, paint te ''amber'' (str ''NOMINAL''),
         paint te ''dim'' (str '' thematic indicator, not a measured value'')],
      printf te (''    %s %s'' @ [LF]) [padded_gold te ''auth'' 12, auth_arg te info],
      put [LF]]"

definition console_print_banner :: "tty_env \<Rightarrow> ConsoleInfo option \<Rightarrow> stmt" where
  "console_print_banner te info_ptr st =
     (case info_ptr of
        None \<Rightarrow> Some st
      | Some info \<Rightarrow>
          (case unicode_enabled te st of (u, st1) \<Rightarrow> (case glyph te G_RAD st1 of (rad, st2) \<Rightarrow>
            (let dot = (if u then CHR '' '' # [CHR 0xC2, CHR 0xB7] @ '' '' else '' - '')
             in seq (banner_box te info dot rad @ banner_links te info @ banner_configuration te info @
                     banner_hints te @ banner_status te info rad) st2))))"

definition shutdown_steps :: "cstr list" where
  "shutdown_steps = [''HTTP server stopped'', ''thread pool drained'', ''database checkpointed'', ''reactor offline'']"

definition console_print_shutdown :: "tty_env \<Rightarrow> stmt" where
  "console_print_shutdown te st =
     (if \<not> console_is_tty te then Some st
      else
        (case glyph te G_OK st of (ok, st1) \<Rightarrow>
          seq ([printf te ([LF] @ ''  %s %s'' @ [LF])
                  [paint te ''hot'' (glyph_arg te G_RAD), paint te ''hot'' (str ''SHUTTING DOWN REACTOR'')]] @
               map (\<lambda>step. printf te (''  [%s] %s%s%s'' @ [LF])
                      [paint te ''amber'' (str ok), paint te ''dim'' (str step), str [], str []]) shutdown_steps @
               [put [LF]]) st1))"

end
