(* ===== verification/Console_Laws.thy ===== *)
theory Console_Laws
  imports Console "HOL-Library.Multiset"
begin

text \<open>
  Facts about the terminal output: the width of a text, the discipline of the rotating
  slots, and what the drawing operations print.  \<open>yields\<close> describes an argument
  expression by its value and the slots it may overwrite, \<open>prints\<close> a statement by the
  text it appends to \<open>stdout\<close>; their rules carry the proofs about the whole screen.
\<close>

section \<open>Bytes and cells\<close>

definition cells :: "cstr \<Rightarrow> nat" where
  "cells s = length (filter (\<lambda>c. \<not> is_continuation c) s)"

text \<open>One cell: a character as a sequence of bytes in UTF-8.\<close>

definition is_cell :: "cstr \<Rightarrow> bool" where
  "is_cell bs \<longleftrightarrow> bs \<noteq> [] \<and> length bs = utf8_seq (hd bs) \<and> hd bs \<noteq> ESC \<and>
     \<not> is_continuation (hd bs) \<and> list_all is_continuation (tl bs)"

text \<open>Printable ASCII.\<close>

definition printable :: "char \<Rightarrow> bool" where
  "printable c \<longleftrightarrow> 32 \<le> uchar c \<and> uchar c < 127"

lemma and_high_mask:
  assumes "n < 256" and "k \<le> 8"
  shows "n AND push_bit k (mask (8 - k)) = 2 ^ k * (n div 2 ^ k :: nat)"
proof -
  have "i < 8" if "bit n i" for i
  proof (rule ccontr)
    assume "\<not> i < 8"
    then have "(2 :: nat) ^ 8 \<le> 2 ^ i" by (intro power_increasing) simp_all
    with assms(1) have "n div 2 ^ i = 0" by simp
    with that show False by (simp add: bit_iff_odd)
  qed
  then have "n AND push_bit k (mask (8 - k)) = push_bit k (drop_bit k n)"
    using assms(2) by (intro bit_eqI) (auto simp: bit_simps diff_less_mono)
  then show ?thesis by (simp add: push_bit_eq_mult drop_bit_eq_div mult.commute)
qed

lemma div_eq_bounds: "0 < m \<Longrightarrow> n div m = q \<longleftrightarrow> q * m \<le> n \<and> n < (q + 1) * (m :: nat)"
  using less_eq_div_iff_mult_less_eq [of m q n] div_less_iff_less_mult [of m n "q + 1"] by linarith

lemma high_div:
  "64 * (n div 64) = 128 \<longleftrightarrow> 128 \<le> n \<and> n < (192 :: nat)" "8 * (n div 8) = 240 \<longleftrightarrow> 240 \<le> n \<and> n < (248 :: nat)"
  "16 * (n div 16) = 224 \<longleftrightarrow> 224 \<le> n \<and> n < (240 :: nat)" "32 * (n div 32) = 192 \<longleftrightarrow> 192 \<le> n \<and> n < (224 :: nat)"
  using div_eq_bounds [of 64 n 2] div_eq_bounds [of 8 n 30] div_eq_bounds [of 16 n 14] div_eq_bounds [of 32 n 6]
  by simp_all

lemma byte_masks:
  assumes "n < (256 :: nat)"
  shows "n AND 0xC0 = 0x80 \<longleftrightarrow> 128 \<le> n \<and> n < 192" "n AND 0xF8 = 0xF0 \<longleftrightarrow> 240 \<le> n \<and> n < 248"
    "n AND 0xF0 = 0xE0 \<longleftrightarrow> 224 \<le> n \<and> n < 240" "n AND 0xE0 = 0xC0 \<longleftrightarrow> 192 \<le> n \<and> n < 224"
  using and_high_mask [OF assms, of 6] and_high_mask [OF assms, of 3]
    and_high_mask [OF assms, of 4] and_high_mask [OF assms, of 5]
  by (simp_all add: mask_eq_exp_minus_1 push_bit_eq_mult high_div)

lemma is_continuation_iff: "is_continuation c \<longleftrightarrow> 128 \<le> uchar c \<and> uchar c < 192"
  by (simp only: is_continuation_def byte_masks(1) [OF uchar_less])

lemma utf8_seq_cases: "utf8_seq c = (if 240 \<le> uchar c \<and> uchar c < 248 then 4
   else if 224 \<le> uchar c \<and> uchar c < 240 then 3 else if 192 \<le> uchar c \<and> uchar c < 224 then 2 else 1)"
  by (simp only: utf8_seq_def byte_masks [OF uchar_less])

lemma ESC_not_continuation [simp]: "\<not> is_continuation ESC"
  by (simp add: is_continuation_iff)

lemma cells_simps [simp]:
  "cells [] = 0" "cells (c # s) = (if is_continuation c then cells s else Suc (cells s))"
  "cells (s @ t) = cells s + cells t" "cells (replicate n CHR '' '') = n"
  by (simp_all add: cells_def is_continuation_iff)

lemma printable_cell: "printable c \<Longrightarrow> is_cell [c]"
  by (auto simp: printable_def is_cell_def is_continuation_iff utf8_seq_cases)

lemma is_cell_cells [simp]: "is_cell bs \<Longrightarrow> cells bs = 1"
  by (cases bs) (auto simp: is_cell_def cells_def list_all_iff filter_empty_conv)

lemma is_cell_no_ESC: "is_cell bs \<Longrightarrow> ESC \<notin> set bs"
  by (cases bs) (auto simp: is_cell_def list_all_iff)

lemma cells_concat: "list_all is_cell cs \<Longrightarrow> cells (concat cs) = length cs \<and> ESC \<notin> set (concat cs)"
  by (induction cs) (auto dest: is_cell_no_ESC)

section \<open>Visible width\<close>

lemma visible_Nil [simp]: "visible_loop [] = Some 0"
  by (simp add: visible_loop.simps)

lemma visible_append:
  "ESC \<notin> set s \<Longrightarrow> visible_loop (s @ t) = map_option (\<lambda>w. cells s + w) (visible_loop t)"
proof (induction s)
  case Nil
  show ?case by (cases "visible_loop t") simp_all
next
  case (Cons c s)
  then show ?case
    by (subst append_Cons, subst visible_loop.simps)
      (auto simp: is_escape_start_def option.map_comp comp_def intro!: option.map_cong0)
qed

lemma visible_plain [simp]: "ESC \<notin> set s \<Longrightarrow> visible_loop s = Some (cells s)"
  using visible_append [of s "[]"] by simp

text \<open>A control sequence takes no cells.\<close>

lemma visible_control:
  assumes "\<forall>c \<in> set code. \<not> isalpha c" and "isalpha m"
  shows "visible_loop (ESC # CHR ''['' # code @ m # t) = visible_loop t"
proof -
  have "\<not> isalpha (CHR ''['')" by (simp add: isalpha_def isupper_def islower_def)
  with assms have "dropWhile (\<lambda>x. \<not> isalpha x) (CHR ''['' # code @ m # t) = m # t"
    by (simp add: dropWhile_append3)
  then show ?thesis by (subst visible_loop.simps) (simp add: is_escape_start_def)
qed

lemma color_code_no_alpha: "c \<in> set (color_code name) \<Longrightarrow> \<not> isalpha c"
  by (auto simp: color_code_def isalpha_def isupper_def islower_def split: if_splits)

lemma length_color_code: "length (color_code name) \<le> 10"
  by (simp add: color_code_def)

section \<open>Slots\<close>

text \<open>What the cached answers stand for.\<close>

definition colored :: "tty_env \<Rightarrow> bool" where
  "colored te \<longleftrightarrow> \<not> env_flag_set te ''NO_COLOR'' \<and> console_is_tty te"

definition utf8_locale :: "tty_env \<Rightarrow> bool" where
  "utf8_locale te = any_utf8 te [''LC_ALL'', ''LC_CTYPE'', ''LANG'']"

definition cache_ok :: "bool \<Rightarrow> int \<Rightarrow> bool" where
  "cache_ok b v \<longleftrightarrow> v < 0 \<or> v = (if b then 1 else 0)"

definition console_ok :: "tty_env \<Rightarrow> console \<Rightarrow> bool" where
  "console_ok te st \<longleftrightarrow> length (cs_slots st) = SLOT_COUNT \<and> cs_index st < SLOT_COUNT \<and>
     cache_ok (colored te) (cs_color st) \<and> cache_ok (utf8_locale te) (cs_utf8 st)"

text \<open>The arguments of every call are all evaluated, in some order.\<close>

definition order_ok :: "tty_env \<Rightarrow> bool" where
  "order_ok te \<longleftrightarrow> (\<forall>n. mset (te_order te n) = mset [0..<n])"

definition window :: "nat \<Rightarrow> nat \<Rightarrow> nat set" where
  "window i k = (\<lambda>j. (i + j) mod SLOT_COUNT) ` {..<k}"

text \<open>From \<open>st\<close> to \<open>st'\<close> at most the next \<open>k\<close> slots were overwritten.\<close>

definition uses :: "tty_env \<Rightarrow> nat \<Rightarrow> console \<Rightarrow> console \<Rightarrow> bool" where
  "uses te k st st' \<longleftrightarrow> console_ok te st' \<and> cs_out st' = cs_out st \<and>
     cs_index st' = (cs_index st + k) mod SLOT_COUNT \<and>
     (\<forall>i. i \<notin> window (cs_index st) k \<longrightarrow> cs_slots st' ! i = cs_slots st ! i)"

definition within :: "cptr \<Rightarrow> nat set \<Rightarrow> bool" where
  "within p w \<longleftrightarrow> (\<forall>i. p = Slot i \<longrightarrow> i \<in> w)"

definition yields :: "tty_env \<Rightarrow> nat \<Rightarrow> cstr \<Rightarrow> arg \<Rightarrow> bool" where
  "yields te n v a \<longleftrightarrow>
     (\<forall>st. console_ok te st \<longrightarrow>
        (\<exists>p st' k. a st = Some (p, st') \<and> k \<le> n \<and> uses te k st st' \<and> deref st' p = v \<and>
           within p (window (cs_index st) k)))"

lemma yieldsE:
  assumes "yields te n v a" and "console_ok te st"
  obtains p st' k where "a st = Some (p, st')" "k \<le> n" "uses te k st st'" "deref st' p = v"
    "within p (window (cs_index st) k)"
  using assms unfolding yields_def by blast

lemma window_add: "window i (k + n) = window i k \<union> window ((i + k) mod SLOT_COUNT) n"
proof -
  have "x < k \<or> x \<in> (+) k ` {..<n}" if "x < k + n" for x
    using that by (cases "x < k") (auto intro!: image_eqI [of _ _ "x - k"])
  then have "{..<k + n} = {..<k} \<union> (+) k ` {..<n}" by auto
  moreover have "(\<lambda>j. (i + j) mod SLOT_COUNT) ` (+) k ` {..<n} = window ((i + k) mod SLOT_COUNT) n"
    by (auto simp: window_def image_image mod_add_left_eq add.assoc)
  ultimately show ?thesis by (simp add: window_def image_Un)
qed

lemma mod_add_inject:
  assumes "(i + a) mod m = (i + b) mod (m :: nat)" and "a < m" and "b < m"
  shows "a = b"
proof -
  have "(int i + int a) mod int m = (int i + int b) mod int m" using assms(1) by (metis of_nat_add of_nat_mod)
  then have "int m dvd int a - int b" by (simp add: mod_eq_dvd_iff)
  moreover have "\<bar>int a - int b\<bar> < int m" using assms by simp
  ultimately show ?thesis using dvd_imp_le_int [of "int a - int b" "int m"] by auto
qed

lemma window_disjoint:
  assumes "k + n \<le> SLOT_COUNT"
  shows "window i k \<inter> window ((i + k) mod SLOT_COUNT) n = {}"
proof -
  have False if "a < k" "b < n" "(i + a) mod 8 = (((i + k) mod 8) + b) mod 8" for a b :: nat
  proof -
    have "(i + a) mod 8 = (i + (k + b)) mod 8" using that(3) by (simp add: mod_add_left_eq add.assoc)
    moreover have "a < 8" "k + b < 8" using that assms by simp_all
    ultimately have "a = k + b" by (rule mod_add_inject)
    then show False using that by simp
  qed
  then show ?thesis by (fastforce simp: window_def)
qed

lemma window_0 [simp]: "window i 0 = {}"
  by (simp add: window_def)

lemma window_1 [simp]: "i < SLOT_COUNT \<Longrightarrow> window i (Suc 0) = {i}"
  by (auto simp: window_def)

lemma window_less: "j \<in> window i k \<Longrightarrow> j < SLOT_COUNT"
  by (auto simp: window_def)

lemma uses_refl: "console_ok te st \<Longrightarrow> uses te 0 st st"
  by (simp add: uses_def console_ok_def)

lemma uses_trans:
  assumes "uses te k st st1" and "uses te n st1 st2"
  shows "uses te (k + n) st st2"
  using assms by (auto simp: uses_def window_add mod_add_left_eq add.assoc)

text \<open>A pointer survives as long as at most eight slots are used.\<close>

lemma deref_uses:
  assumes "uses te k st st1" "uses te n st1 st2" "k + n \<le> SLOT_COUNT" "within p (window (cs_index st) k)"
  shows "deref st2 p = deref st1 p"
proof (cases p)
  case (Slot i)
  then have "i \<notin> window (cs_index st1) n"
    using assms window_disjoint [OF assms(3), of "cs_index st"] by (auto simp: uses_def within_def)
  then show ?thesis using Slot assms(2) by (simp add: deref_def uses_def)
qed (simp add: deref_def)

lemma within_mono: "within p w \<Longrightarrow> w \<subseteq> w' \<Longrightarrow> within p w'"
  by (auto simp: within_def)

section \<open>Values of argument expressions\<close>

text \<open>The painted text, the glyph, the padded and the centred text as functions of the
  environment.\<close>

definition ink :: "tty_env \<Rightarrow> cstr \<Rightarrow> cstr \<Rightarrow> cstr" where
  "ink te name t =
     (if colored te then snprintf_buf SLOT_SIZE ([ESC] @ ''['' @ color_code name @ ''m'' @ t @ [ESC] @ ''[0m'') else t)"

definition unicode :: "tty_env \<Rightarrow> bool" where
  "unicode te \<longleftrightarrow> utf8_locale te \<and> console_is_tty te"

definition sign :: "tty_env \<Rightarrow> Glyph \<Rightarrow> cstr" where
  "sign te g = (if unicode te then gl_unicode g else gl_ascii g)"

definition pad_text :: "cstr \<Rightarrow> nat \<Rightarrow> cstr" where
  "pad_text t width =
     (let out = snprintf_buf SLOT_SIZE t
      in out @ replicate (min (width - cells out) (SLOT_SIZE - 1 - length out)) CHR '' '')"

definition center_text :: "cstr \<Rightarrow> nat \<Rightarrow> cstr" where
  "center_text t width =
     snprintf_buf SLOT_SIZE
       (replicate ((width - cells t) div 2) CHR '' '' @ t @
        replicate (width - cells t - (width - cells t) div 2) CHR '' '')"

lemma color_enabled_uses:
  "console_ok te st \<Longrightarrow> \<exists>st'. color_enabled te st = (colored te, st') \<and> uses te 0 st st' \<and> cs_slots st' = cs_slots st"
  by (auto simp: color_enabled_def uses_def console_ok_def cache_ok_def colored_def Let_def split: if_splits)

lemma unicode_enabled_uses:
  "console_ok te st \<Longrightarrow> \<exists>st'. unicode_enabled te st = (unicode te, st') \<and> uses te 0 st st'"
  unfolding unicode_enabled_def console_is_utf8_def utf8_locale_def [symmetric]
  by (auto simp: uses_def console_ok_def cache_ok_def unicode_def Let_def split: if_splits)

lemma glyph_uses: "console_ok te st \<Longrightarrow> \<exists>st'. glyph te g st = (sign te g, st') \<and> uses te 0 st st'"
  using unicode_enabled_uses [of te st] by (auto simp: glyph_def sign_def)

text \<open>Taking the next slot and filling it.\<close>

lemma next_slot_uses:
  assumes "console_ok te st" and "next_slot st = (i, st1)"
  shows "uses te 1 st (set_slot i t st1)" and "deref (set_slot i t st1) (Slot i) = t"
    and "i \<in> window (cs_index st) 1" and "uses te 1 st st1"
  using assms
  by (auto simp: next_slot_def set_slot_def uses_def console_ok_def deref_def Let_def)

lemma yields_text:
  assumes "\<And>st. console_ok te st \<Longrightarrow> \<exists>st'. a st = Some (Text t, st') \<and> uses te 0 st st'"
  shows "yields te 0 t a"
  unfolding yields_def
proof (intro allI impI)
  fix st assume "console_ok te st"
  then obtain st' where "a st = Some (Text t, st')" "uses te 0 st st'" using assms by blast
  then show "\<exists>p st' k. a st = Some (p, st') \<and> k \<le> 0 \<and> uses te k st st' \<and> deref st' p = t \<and>
      within p (window (cs_index st) k)"
    by (intro exI [of _ "Text t"] exI [of _ st'] exI [of _ 0]) (simp add: deref_def within_def)
qed

lemma yields_str: "yields te 0 t (str t)"
  by (rule yields_text) (simp add: str_def uses_refl)

lemma yields_glyph: "yields te 0 (sign te g) (glyph_arg te g)"
  by (rule yields_text) (auto simp: glyph_arg_def dest: glyph_uses [of te _ g])

lemma yields_unicode_or: "yields te 0 (if unicode te then a else b) (unicode_or te a b)"
  by (rule yields_text) (auto simp: unicode_or_def dest: unicode_enabled_uses)

lemma yields_paint:
  assumes a: "yields te n v a" and n: "n < SLOT_COUNT"
  shows "yields te (Suc n) (ink te name v) (paint te name a)"
  unfolding yields_def
proof (intro allI impI)
  fix st assume "console_ok te st"
  then obtain p st1 k where st1: "a st = Some (p, st1)" "k \<le> n" "uses te k st st1" "deref st1 p = v"
      "within p (window (cs_index st) k)"
    using yieldsE [OF a] by blast
  then obtain st2 where st2: "color_enabled te st1 = (colored te, st2)" "uses te 0 st1 st2"
    using color_enabled_uses [of te st1] by (auto simp: uses_def)
  have u2: "uses te k st st2" using uses_trans [OF st1(3) st2(2)] by simp
  have v2: "deref st2 p = v"
    using deref_uses [OF st1(3) st2(2)] st1 n by simp
  obtain i st3 where st3: "next_slot st2 = (i, st3)" by fastforce
  have ok2: "console_ok te st2" using u2 by (simp add: uses_def)
  note slot = next_slot_uses [OF ok2 st3]
  have v3: "deref st3 p = v" using deref_uses [OF u2 slot(4)] st1 v2 n by simp
  show "\<exists>p st' k. paint te name a st = Some (p, st') \<and> k \<le> Suc n \<and> uses te k st st' \<and>
      deref st' p = ink te name v \<and> within p (window (cs_index st) k)"
  proof (cases "colored te")
    case False
    then show ?thesis
      using st1 st2 u2 v2
      by (intro exI [of _ p] exI [of _ st2] exI [of _ k]) (simp add: paint_def console_colorize_def ink_def)
  next
    case True
    let ?t = "ink te name v"
    have "paint te name a st = Some (Slot i, set_slot i ?t st3)"
      using st1 st2 st3 v3 True by (simp add: paint_def console_colorize_def ink_def)
    moreover have "uses te (k + 1) st (set_slot i ?t st3)" using uses_trans [OF u2 slot(1)] .
    moreover have "i \<in> window (cs_index st) (k + 1)"
      using slot(3) u2 window_add [of "cs_index st" k 1] by (simp add: uses_def)
    ultimately show ?thesis
      using slot(2) st1(2) by (intro exI [of _ "Slot i"] exI [of _ "set_slot i ?t st3"] exI [of _ "k + 1"])
        (simp add: within_def)
  qed
qed

lemma pad_loop_replicate:
  "pad_loop out used width = out @ replicate (min (width - used) (SLOT_SIZE - 1 - length out)) CHR '' ''"
proof (induction out used width rule: pad_loop.induct)
  case (1 out used width)
  show ?case
  proof (cases "used < width \<and> length out + 1 < SLOT_SIZE")
    case True
    then have "min (width - used) (SLOT_SIZE - 1 - length out) =
        Suc (min (width - (used + 1)) (SLOT_SIZE - 1 - length (out @ '' '')))"
      by (simp add: min_def) linarith
    with True 1 show ?thesis by (subst pad_loop.simps) simp
  next
    case False
    then have "min (width - used) (SLOT_SIZE - 1 - length out) = 0" by (simp add: min_def) linarith
    with False show ?thesis by (subst pad_loop.simps) auto
  qed
qed

lemma spaces_replicate: "n < 2147483648 \<Longrightarrow> spaces n = replicate n CHR '' ''"
proof -
  assume "n < 2147483648"
  then have "signed_take_bit 31 (int n) = int n" by (intro signed_take_bit_int_eq_self) simp_all
  then show ?thesis by (simp add: spaces_def)
qed

lemma yields_slot:
  assumes "\<And>st i st1. console_ok te st \<Longrightarrow> next_slot st = (i, st1) \<Longrightarrow> a st = Some (Slot i, set_slot i v st1)"
  shows "yields te 1 v a"
  unfolding yields_def
proof (intro allI impI)
  fix st assume ok: "console_ok te st"
  obtain i st1 where n: "next_slot st = (i, st1)" by fastforce
  then show "\<exists>p st' k. a st = Some (p, st') \<and> k \<le> 1 \<and> uses te k st st' \<and> deref st' p = v \<and>
      within p (window (cs_index st) k)"
    using assms [OF ok n] next_slot_uses [OF ok n]
    by (intro exI [of _ "Slot i"] exI [of _ "set_slot i v st1"] exI [of _ 1]) (simp add: within_def)
qed

lemma yields_pad:
  assumes "ESC \<notin> set t"
  shows "yields te 1 (pad_text t width) (console_pad_right (Some (Text t)) width)"
proof (rule yields_slot)
  fix st i st1 assume "next_slot st = (i, st1)"
  moreover have "ESC \<notin> set (snprintf_buf SLOT_SIZE t)"
    using assms by (auto simp: snprintf_buf_def dest: in_set_takeD)
  ultimately show "console_pad_right (Some (Text t)) width st = Some (Slot i, set_slot i (pad_text t width) st1)"
    by (simp add: console_pad_right_def text_of_def deref_def console_visible_width_def pad_text_def
        pad_loop_replicate Let_def)
qed

lemma yields_center:
  assumes "ESC \<notin> set t" and "width < 1000" and "length t < 1000000"
  shows "yields te 1 (center_text t width) (console_center (Some (Text t)) width)"
proof (rule yields_slot)
  fix st i st1 assume n: "next_slot st = (i, st1)"
  define l where "l = (width - cells t) div 2"
  define r where "r = width - cells t - l"
  have lr: "(if width \<le> cells t then 0 else l) = l"
      "(if width \<le> cells t then 0 else r) = r"
    by (auto simp: l_def r_def)
  have "l < 1000" "r < 1000" using assms(2) by (auto simp: l_def r_def)
  then have sp: "spaces l = replicate l CHR '' ''" "spaces r = replicate r CHR '' ''"
    and short: "\<not> 2147483647 < length (replicate l CHR '' '' @ t @ replicate r CHR '' '')"
    using assms(3) by (simp_all add: spaces_replicate)
  have "text_of st1 (Some (Text t)) = t" by (simp add: text_of_def deref_def)
  moreover have "console_visible_width (Some t) = Some (cells t)"
    using assms(1) by (simp add: console_visible_width_def)
  ultimately show "console_center (Some (Text t)) width st = Some (Slot i, set_slot i (center_text t width) st1)"
    unfolding console_center_def n prod.case Let_def
    by (simp only: Option.bind.simps lr sp short if_False center_text_def l_def [symmetric] r_def [symmetric])
qed

section \<open>Evaluating the arguments of a call\<close>

lemma eval_in_order_yields:
  assumes "console_ok te st" and "distinct ix" and "\<forall>i \<in> set ix. i < length args \<and> yields te (ns ! i) (vs ! i) (args ! i)"
    and "sum_list (map (\<lambda>i. ns ! i) ix) \<le> SLOT_COUNT" and "length ps = length args"
  shows "\<exists>ps' st' k. eval_in_order ix args ps st = Some (ps', st') \<and> k \<le> sum_list (map (\<lambda>i. ns ! i) ix) \<and>
    uses te k st st' \<and> length ps' = length args \<and> (\<forall>j. j \<notin> set ix \<longrightarrow> ps' ! j = ps ! j) \<and>
    (\<forall>i \<in> set ix. deref st' (ps' ! i) = vs ! i)"
  using assms
proof (induction ix arbitrary: ps st)
  case Nil
  then show ?case using uses_refl by fastforce
next
  case (Cons i ix)
  from Cons.prems obtain p st1 k1 where 1: "(args ! i) st = Some (p, st1)" "k1 \<le> ns ! i" "uses te k1 st st1"
      "deref st1 p = vs ! i" "within p (window (cs_index st) k1)"
    using yieldsE [of te "ns ! i" "vs ! i" "args ! i" st] by (metis list.set_intros(1))
  then have "console_ok te st1" by (simp add: uses_def)
  from Cons.IH [OF this, of "ps[i := p]"] Cons.prems obtain ps' st2 k2 where 2: "eval_in_order ix args (ps[i := p]) st1 = Some (ps', st2)"
      "k2 \<le> sum_list (map (\<lambda>i. ns ! i) ix)" "uses te k2 st1 st2" "length ps' = length args"
      "\<forall>j. j \<notin> set ix \<longrightarrow> ps' ! j = ps[i := p] ! j" "\<forall>i \<in> set ix. deref st2 (ps' ! i) = vs ! i"
    by auto
  have "k1 + k2 \<le> SLOT_COUNT" using 1(2) 2(2) Cons.prems(4) by simp
  then have "deref st2 p = vs ! i" using deref_uses [OF 1(3) 2(3)] 1 by simp
  moreover have "ps' ! i = p" using 2(5) Cons.prems by simp
  moreover have "uses te (k1 + k2) st st2" using 1(3) 2(3) by (rule uses_trans)
  ultimately show ?case
    using 1 2 Cons.prems by (intro exI [of _ ps'] exI [of _ st2] exI [of _ "k1 + k2"]) auto
qed

lemma sum_list_perm: "mset ix = mset [0..<length ns] \<Longrightarrow> sum_list (map (\<lambda>i. ns ! i) ix) = sum_list (ns :: nat list)"
  by (metis map_nth mset_map sum_mset_sum_list)

lemma eval_args_yields:
  assumes "order_ok te" and "console_ok te st" and "list_all2 (\<lambda>(n, v) a. yields te n v a) nvs args"
    and "sum_list (map fst nvs) \<le> SLOT_COUNT"
  shows "\<exists>ps st'. eval_args te args st = Some (ps, st') \<and> console_ok te st' \<and> cs_out st' = cs_out st \<and>
    map (deref st') ps = map snd nvs"
proof -
  let ?ix = "te_order te (length args)"
  have len: "length nvs = length args" using assms(3) by (rule list_all2_lengthD)
  have perm: "mset ?ix = mset [0..<length args]" using assms(1) by (simp add: order_ok_def)
  then have set: "set ?ix = {..<length args}" and "distinct ?ix"
    by (metis set_mset_mset atLeast_upt) (metis distinct_upt mset_eq_imp_distinct_iff perm)
  moreover have "\<forall>i \<in> set ?ix. i < length args \<and> yields te (map fst nvs ! i) (map snd nvs ! i) (args ! i)"
    using set len assms(3) by (auto simp: list_all2_conv_all_nth case_prod_beta)
  moreover have "sum_list (map (\<lambda>i. map fst nvs ! i) ?ix) \<le> SLOT_COUNT"
    using assms(4) sum_list_perm [of ?ix "map fst nvs"] perm len by simp
  ultimately obtain ps st' k where "eval_args te args st = Some (ps, st')" "uses te k st st'"
      "length ps = length args" "\<forall>i \<in> set ?ix. deref st' (ps ! i) = map snd nvs ! i"
    using eval_in_order_yields [OF assms(2), of ?ix args "map fst nvs" "map snd nvs" "replicate (length args) (Text [])"]
    by (auto simp: eval_args_def)
  then show ?thesis
    using set len by (intro exI [of _ ps] exI [of _ st']) (auto simp: uses_def intro!: nth_equalityI)
qed

section \<open>What statements print\<close>

definition prints :: "tty_env \<Rightarrow> cstr \<Rightarrow> stmt \<Rightarrow> bool" where
  "prints te t m \<longleftrightarrow> (\<forall>st. console_ok te st \<longrightarrow> (\<exists>st'. m st = Some st' \<and> console_ok te st' \<and> cs_out st' = cs_out st @ t))"

definition copies :: "tty_env \<Rightarrow> cstr \<Rightarrow> (console \<Rightarrow> (cstr \<times> console) option) \<Rightarrow> bool" where
  "copies te v f \<longleftrightarrow> (\<forall>st. console_ok te st \<longrightarrow> (\<exists>st'. f st = Some (v, st') \<and> console_ok te st' \<and> cs_out st' = cs_out st))"

lemma printsI:
  "(\<And>st. console_ok te st \<Longrightarrow> \<exists>st'. m st = Some st' \<and> console_ok te st' \<and> cs_out st' = cs_out st @ t) \<Longrightarrow> prints te t m"
  by (simp add: prints_def)

lemma printsE:
  assumes "prints te t m" and "console_ok te st"
  obtains st' where "m st = Some st'" "console_ok te st'" "cs_out st' = cs_out st @ t"
  using assms unfolding prints_def by blast

lemma copiesE:
  assumes "copies te v f" and "console_ok te st"
  obtains st' where "f st = Some (v, st')" "console_ok te st'" "cs_out st' = cs_out st"
  using assms unfolding copies_def by blast

lemma glyph_copies:
  assumes "console_ok te st"
  obtains st' where "glyph te g st = (sign te g, st')" "console_ok te st'" "cs_out st' = cs_out st"
  using glyph_uses [OF assms, of g] by (auto simp: uses_def)

lemma unicode_copies:
  assumes "console_ok te st"
  obtains st' where "unicode_enabled te st = (unicode te, st')" "console_ok te st'" "cs_out st' = cs_out st"
  using unicode_enabled_uses [OF assms] by (auto simp: uses_def)

lemma prints_put: "prints te t (put t)"
  by (simp add: prints_def put_def console_ok_def)

lemma prints_printf:
  assumes "order_ok te" and "list_all2 (\<lambda>(n, v) a. yields te n v a) nvs args" and "sum_list (map fst nvs) \<le> SLOT_COUNT"
  shows "prints te (format_s fmt (map snd nvs)) (printf te fmt args)"
proof (rule printsI)
  fix st assume "console_ok te st"
  with eval_args_yields [OF assms(1) _ assms(2,3)] obtain ps st' where
    "eval_args te args st = Some (ps, st')" "console_ok te st'" "cs_out st' = cs_out st" "map (deref st') ps = map snd nvs"
    by blast
  then show "\<exists>st'. printf te fmt args st = Some st' \<and> console_ok te st' \<and> cs_out st' = cs_out st @ format_s fmt (map snd nvs)"
    by (simp add: printf_def put_def console_ok_def)
qed

lemma prints_seq: "list_all2 (prints te) ts ms \<Longrightarrow> prints te (concat ts) (seq ms)"
proof (induction rule: list_all2_induct)
  case Nil
  show ?case by (simp add: prints_def)
next
  case (Cons t ts m ms)
  show ?case
  proof (rule printsI)
    fix st assume "console_ok te st"
    then obtain st1 where "m st = Some st1" "console_ok te st1" "cs_out st1 = cs_out st @ t"
      using Cons(1) by (auto elim: printsE)
    moreover from this obtain st2 where "seq ms st1 = Some st2" "console_ok te st2" "cs_out st2 = cs_out st1 @ concat ts"
      using Cons(3) by (auto elim: printsE)
    ultimately show "\<exists>st'. seq (m # ms) st = Some st' \<and> console_ok te st' \<and> cs_out st' = cs_out st @ concat (t # ts)"
      by simp
  qed
qed

lemma copies_copied:
  assumes "yields te n v a"
  shows "copies te (snprintf_buf m v) (copied m a)"
  unfolding copies_def
proof (intro allI impI)
  fix st assume "console_ok te st"
  then obtain p st' k where "a st = Some (p, st')" "uses te k st st'" "deref st' p = v"
    using yieldsE [OF assms] by blast
  then show "\<exists>st'. copied m a st = Some (snprintf_buf m v, st') \<and> console_ok te st' \<and> cs_out st' = cs_out st"
    by (simp add: copied_def uses_def)
qed

lemma length_snprintf_le: "length (snprintf_buf m t) \<le> length t"
  by (simp add: snprintf_buf_def)

lemma length_ink: "length (ink te name t) \<le> length t + 17"
  using length_color_code [of name]
    length_snprintf_le [of SLOT_SIZE "[ESC] @ ''['' @ color_code name @ ''m'' @ t @ [ESC] @ ''[0m''"]
  by (simp add: ink_def)

lemma snprintf_short: "length t < m \<Longrightarrow> snprintf_buf m t = t"
  by (simp add: snprintf_fits_def)

text \<open>A painted text copied into an array it fits.\<close>

lemma copies_paint:
  assumes "yields te n v a" and "n < SLOT_COUNT" and "length v + 17 < m"
  shows "copies te (ink te name v) (copied m (paint te name a))"
  using copies_copied [OF yields_paint [OF assms(1,2)], of m name] length_ink [of te name v] assms(3)
  by (simp add: snprintf_short)

lemma length_center_text: "cells t \<le> length t" "length (center_text t w) \<le> max w (cells t) + (length t - cells t)"
proof -
  show le: "cells t \<le> length t" by (simp add: cells_def)
  have "length (center_text t w) \<le> (w - cells t) + length t"
    unfolding center_text_def by (rule order.trans [OF length_snprintf_le]) simp
  with le show "length (center_text t w) \<le> max w (cells t) + (length t - cells t)" by linarith
qed

lemma copies_centered:
  assumes "ESC \<notin> set t" and "w < 400" and "length t < 400" and "max w (cells t) + (length t - cells t) + 17 < n"
  shows "copies te (ink te color (center_text t w)) (centered te n color t w)"
proof -
  have y: "yields te 1 (center_text t w) (console_center (Some (Text t)) w)"
    using assms by (intro yields_center) simp_all
  have "length (center_text t w) + 17 < n"
    using length_center_text(2) [of t w] assms(4) by linarith
  then show ?thesis unfolding centered_def by (intro copies_paint [OF y]) simp_all
qed

end
