(* ===== verification/Console_Screen.thy ===== *)
theory Console_Screen
  imports Console_Laws
begin

text \<open>
  The screens of \<open>src/console.c\<close>: every row of the box as a function of its text, the
  whole banner, and the properties of the terminal output.
\<close>

section \<open>Texts as cells\<close>

text \<open>A text cut at its code points.\<close>

function utf8_cells :: "cstr \<Rightarrow> cstr list" where
  "utf8_cells s =
     (case s of
        [] \<Rightarrow> []
      | c # t \<Rightarrow> (c # takeWhile is_continuation t) # utf8_cells (dropWhile is_continuation t))"
  by pat_completeness auto
termination
  by (relation "measure length") (auto simp: less_Suc_eq_le length_dropWhile_le)

declare utf8_cells.simps [simp del]

text \<open>Well-formed texts without control sequences.\<close>

definition clean :: "cstr \<Rightarrow> bool" where
  "clean s \<longleftrightarrow> list_all is_cell (utf8_cells s)"

lemma utf8_cells_Nil [simp]: "utf8_cells [] = []"
  by (simp add: utf8_cells.simps)

lemma concat_utf8_cells [simp]: "concat (utf8_cells s) = s"
proof (induction s rule: utf8_cells.induct)
  case (1 s)
  then show ?case by (subst utf8_cells.simps) (auto split: list.splits)
qed

lemma utf8_cells_cell:
  assumes "is_cell bs" and "t = [] \<or> \<not> is_continuation (hd t)"
  shows "utf8_cells (bs @ t) = bs # utf8_cells t"
proof -
  obtain c r where bs: "bs = c # r" and r: "\<forall>x \<in> set r. is_continuation x"
    using assms(1) by (cases bs) (auto simp: is_cell_def list_all_iff)
  have "takeWhile is_continuation (r @ t) = r" "dropWhile is_continuation (r @ t) = t"
    using r assms(2) by (cases t; simp add: takeWhile_append2 dropWhile_append2)+
  then show ?thesis by (subst utf8_cells.simps) (simp add: bs)
qed

lemma utf8_cells_concat: "list_all is_cell cs \<Longrightarrow> utf8_cells (concat cs) = cs"
proof (induction cs)
  case (Cons bs cs)
  have "concat cs = [] \<or> \<not> is_continuation (hd (concat cs))"
    using Cons.prems by (cases cs) (auto simp: is_cell_def hd_append)
  then show ?case using Cons utf8_cells_cell [of bs "concat cs"] by simp
qed simp

lemma clean_append [simp]:
  assumes "clean s" and "clean t"
  shows "clean (s @ t)" and "utf8_cells (s @ t) = utf8_cells s @ utf8_cells t"
proof -
  have "utf8_cells (s @ t) = utf8_cells s @ utf8_cells t"
    using utf8_cells_concat [of "utf8_cells s @ utf8_cells t"] assms by (simp add: clean_def)
  then show "clean (s @ t)" and "utf8_cells (s @ t) = utf8_cells s @ utf8_cells t"
    using assms by (simp_all add: clean_def)
qed

lemma clean_cells: "clean s \<Longrightarrow> length (utf8_cells s) = cells s" "clean s \<Longrightarrow> ESC \<notin> set s"
  using cells_concat [of "utf8_cells s"] by (simp_all add: clean_def)

lemma clean_printable: "list_all printable s \<Longrightarrow> clean s \<and> cells s = length s"
proof -
  assume p: "list_all printable s"
  then have "list_all is_cell (map (\<lambda>c. [c]) s)" by (auto simp: list_all_iff printable_cell)
  then have "utf8_cells s = map (\<lambda>c. [c]) s" using utf8_cells_concat [of "map (\<lambda>c. [c]) s"] by simp
  with \<open>list_all is_cell (map (\<lambda>c. [c]) s)\<close> p show ?thesis
    using clean_cells(1) [of s] by (auto simp: clean_def)
qed

lemma is_cell_clean: "is_cell bs \<Longrightarrow> clean bs"
  using utf8_cells_cell [of bs "[]"] by (simp add: clean_def)

section \<open>Rows\<close>

text \<open>The truncation as the first cells and a dot.\<close>

definition row_shown :: "nat \<Rightarrow> cstr \<Rightarrow> cstr" where
  "row_shown room text =
     (if cells text \<le> room then text else concat (take (room - 1) (utf8_cells text)) @ ''.'')"

lemma copy_seq_cell:
  "length safe + n + length bs \<le> ROW_BUFFER \<Longrightarrow> copy_seq n (length bs) (bs @ rest) safe = (rest, safe @ bs)"
  by (induction bs arbitrary: safe) auto

lemma utf8_seq_le: "utf8_seq c \<le> 4"
  by (simp add: utf8_seq_def)

lemma cut_loop_cells:
  assumes "list_all is_cell cs" and "length safe + length (concat (take (room - 1 - k) cs)) \<le> 160"
  shows "cut_loop room k (concat cs) safe = safe @ concat (take (room - 1 - k) cs)"
  using assms
proof (induction cs arbitrary: k safe)
  case Nil
  then show ?case by (simp add: cut_loop.simps)
next
  case (Cons bs cs)
  have bs: "is_cell bs" "bs \<noteq> []" "utf8_seq (hd bs) = length bs" using Cons.prems(1) by (auto simp: is_cell_def)
  show ?case
  proof (cases "k + 1 < room")
    case False
    then have "room - 1 - k = 0" by simp
    with False show ?thesis by (subst cut_loop.simps) simp
  next
    case True
    then have n: "room - 1 - k = Suc (room - 1 - (k + 1))" by simp
    have len: "length safe + length bs + length (concat (take (room - 1 - (k + 1)) cs)) \<le> 160"
      using Cons.prems(2) unfolding n by simp
    have "length bs \<le> 4" using utf8_seq_le [of "hd bs"] bs(3) by simp
    then have "copy_seq (length bs) (length bs) (bs @ concat cs) safe = (concat cs, safe @ bs)"
      using len by (intro copy_seq_cell) simp
    then have "cut_loop room k (concat (bs # cs)) safe = cut_loop room (k + 1) (concat cs) (safe @ bs)"
      using True bs by (subst cut_loop.simps) (simp add: hd_append)
    also have "\<dots> = (safe @ bs) @ concat (take (room - 1 - (k + 1)) cs)"
      using Cons.prems(1) len by (intro Cons.IH) simp_all
    finally show ?thesis unfolding n by simp
  qed
qed

text \<open>The bytes beyond one per cell, which only grow with the text.\<close>

lemma concat_take_extra:
  "list_all is_cell cs \<Longrightarrow> length (concat (take k cs)) + length cs \<le> min k (length cs) + length (concat cs)"
proof (induction cs arbitrary: k)
  case (Cons bs cs)
  then have "1 \<le> length bs" by (cases bs) (auto simp: is_cell_def)
  then show ?case
  proof (cases k)
    case 0
    have "length cs \<le> length (concat cs)"
      using Cons.prems cells_concat [of cs] length_center_text(1) [of "concat cs"] by simp
    with 0 \<open>1 \<le> length bs\<close> show ?thesis by simp
  next
    case (Suc k')
    then show ?thesis using Cons.IH [of k'] Cons.prems by simp
  qed
qed simp

lemma row_cut_shown:
  assumes "clean t" and "length t \<le> cells t + 60" and "room \<le> 70" and "room < cells t"
  shows "row_cut room t = Some (row_shown room t)"
    and "cells (row_shown room t) = max 1 room" and "length (row_shown room t) \<le> max 1 room + 60" and "clean (row_shown room t)"
proof -
  let ?cs = "utf8_cells t"
  have cs: "list_all is_cell ?cs" "length ?cs = cells t" using assms(1) clean_cells(1) by (auto simp: clean_def)
  have short: "length (concat (take (room - 1) ?cs)) \<le> room - 1 + 60"
    using concat_take_extra [OF cs(1), of "room - 1"] assms cs(2) by simp
  then have "cut_loop room 0 t [] = concat (take (room - 1) ?cs)"
    using cut_loop_cells [OF cs(1), of "[]" room 0] assms(3) by simp
  with short assms show "row_cut room t = Some (row_shown room t)"
    by (simp add: row_cut_def row_shown_def Let_def)
  have tk: "list_all is_cell (take (room - 1) ?cs)" using cs(1) by (auto simp: list_all_iff dest: in_set_takeD)
  have dot: "clean ''.''" by (rule is_cell_clean, rule printable_cell) (simp add: printable_def)
  have "clean (concat (take (room - 1) ?cs))" using tk utf8_cells_concat [OF tk] by (simp add: clean_def)
  then show "clean (row_shown room t)" using assms(1) dot by (simp add: row_shown_def)
  have "cells (concat (take (room - 1) ?cs)) = room - 1" using cells_concat [OF tk] cs(2) assms(4) by simp
  then show "cells (row_shown room t) = max 1 room"
    using assms(4) by (simp add: row_shown_def is_continuation_iff)
  show "length (row_shown room t) \<le> max 1 room + 60" using short assms(4) by (simp add: row_shown_def)
qed

section \<open>Lines of the box\<close>

definition frame :: "tty_env \<Rightarrow> Glyph \<Rightarrow> cstr \<Rightarrow> Glyph \<Rightarrow> cstr" where
  "frame te a body b = ink te ''dim'' (sign te a) @ body @ ink te ''dim'' (sign te b)"

definition rule_line :: "tty_env \<Rightarrow> nat \<Rightarrow> cstr \<Rightarrow> cstr" where
  "rule_line te inner color = frame te G_TL (ink te color (concat (replicate inner (sign te G_HZ)))) G_TR"

definition row_line :: "tty_env \<Rightarrow> cstr \<Rightarrow> nat \<Rightarrow> cstr \<Rightarrow> cstr" where
  "row_line te text inner color = frame te G_VZ (ink te color (center_text (row_shown (inner - 2) text) inner)) G_VZ"

definition blank_line :: "tty_env \<Rightarrow> nat \<Rightarrow> cstr" where
  "blank_line te inner = frame te G_VZ (center_text [] inner) G_VZ"

definition closing_line :: "tty_env \<Rightarrow> nat \<Rightarrow> cstr" where
  "closing_line te inner =
     (let lead = (inner - 6) div 2
      in frame te G_BL
           (ink te ''dim'' (concat (replicate lead (sign te G_HZ))) @
            ink te ''amber'' (if unicode te then concat (replicate 6 [CHR 0xE2, CHR 0x96, CHR 0x80]) else ''======'') @
            ink te ''dim'' (concat (replicate (inner - 6 - lead) (sign te G_HZ)))) G_BR)"

lemma yields_paint1: "yields te 0 v a \<Longrightarrow> yields te 1 (ink te name v) (paint te name a)"
  using yields_paint [of te 0 v a name] by simp

lemma prints_framed:
  assumes "order_ok te"
  shows "prints te (frame te a body b @ [LF])
    (printf te (''%s%s%s'' @ [LF]) [paint te ''dim'' (glyph_arg te a), str body, paint te ''dim'' (glyph_arg te b)])"
  using prints_printf [OF assms, of "[(1, ink te ''dim'' (sign te a)), (0, body), (1, ink te ''dim'' (sign te b))]"
      "[paint te ''dim'' (glyph_arg te a), str body, paint te ''dim'' (glyph_arg te b)]" "''%s%s%s'' @ [LF]"]
    yields_paint1 [OF yields_glyph, of te "''dim''" a] yields_paint1 [OF yields_glyph, of te "''dim''" b] yields_str
  by (simp add: frame_def format_s.simps)

lemma repeat_concat: "n * length u + 1 < capacity \<Longrightarrow> repeat capacity u n = concat (replicate n u)"
proof -
  have "length out + n * length u + 1 < capacity \<Longrightarrow> repeat_loop capacity u n out = out @ concat (replicate n u)" for out
    by (induction n arbitrary: out) auto
  then show "n * length u + 1 < capacity \<Longrightarrow> ?thesis" by (simp add: repeat_def)
qed

lemma length_sign: "length (sign te G_HZ) \<le> 3"
  by (simp add: sign_def G_HZ_def)

lemma copies_rule:
  assumes "n \<le> 72"
  shows "copies te (ink te color (concat (replicate n (sign te G_HZ))))
    (copied (RULE_BUFFER + 32) (paint te color (str (repeat RULE_BUFFER (sign te G_HZ) n))))"
proof -
  have "n * length (sign te G_HZ) \<le> 72 * 3" using assms length_sign [of te] by (intro mult_le_mono) simp_all
  then have "repeat RULE_BUFFER (sign te G_HZ) n = concat (replicate n (sign te G_HZ))"
    and "length (concat (replicate n (sign te G_HZ))) \<le> 216"
    by (simp_all add: repeat_concat length_concat sum_list_replicate)
  then show ?thesis using copies_paint [OF yields_str, of "concat (replicate n (sign te G_HZ))" "RULE_BUFFER + 32" te color]
    by simp
qed

lemma prints_rule:
  assumes "order_ok te" and "inner \<le> 72"
  shows "prints te (rule_line te inner color @ [LF]) (draw_rule te inner color)"
proof (rule printsI)
  fix st assume "console_ok te st"
  then obtain st1 where 1: "glyph te G_HZ st = (sign te G_HZ, st1)" "console_ok te st1" "cs_out st1 = cs_out st"
    by (rule glyph_copies)
  obtain st2 where 2: "copied (RULE_BUFFER + 32) (paint te color (str (repeat RULE_BUFFER (sign te G_HZ) inner))) st1 =
      Some (ink te color (concat (replicate inner (sign te G_HZ))), st2)" "console_ok te st2" "cs_out st2 = cs_out st1"
    using copiesE [OF copies_rule [OF assms(2)] 1(2)] by blast
  show "\<exists>st'. draw_rule te inner color st = Some st' \<and> console_ok te st' \<and> cs_out st' = cs_out st @ rule_line te inner color @ [LF]"
    using printsE [OF prints_framed [OF assms(1)] 2(2)] 1 2 by (simp add: draw_rule_def rule_line_def) metis
qed

lemma prints_blank:
  assumes "order_ok te" and "inner \<le> 72"
  shows "prints te (blank_line te inner @ [LF]) (draw_blank te inner)"
proof (rule printsI)
  fix st assume ok: "console_ok te st"
  have "length (center_text [] inner) < ROW_BUFFER"
    using length_center_text(2) [of "[]" inner] assms(2) by simp
  then have "copies te (center_text [] inner) (copied ROW_BUFFER (console_center (Some (Text [])) inner))"
    using copies_copied [OF yields_center, of "[]" inner te ROW_BUFFER] assms(2) by (simp add: snprintf_short)
  with ok obtain st1 where 1: "copied ROW_BUFFER (console_center (Some (Text [])) inner) st = Some (center_text [] inner, st1)"
      "console_ok te st1" "cs_out st1 = cs_out st"
    by (auto elim: copiesE)
  show "\<exists>st'. draw_blank te inner st = Some st' \<and> console_ok te st' \<and> cs_out st' = cs_out st @ blank_line te inner @ [LF]"
    using printsE [OF prints_framed [OF assms(1)] 1(2)] 1 by (simp add: draw_blank_def blank_line_def) metis
qed

lemma row_shown_fits:
  assumes "3 \<le> inner" and "inner \<le> 72" and "clean t" and "length t \<le> cells t + 60"
  shows "(if inner - 2 < cells t then row_cut (inner - 2) t else Some t) = Some (row_shown (inner - 2) t)"
    and "clean (row_shown (inner - 2) t)" and "cells (row_shown (inner - 2) t) \<le> inner - 2"
    and "length (row_shown (inner - 2) t) \<le> cells (row_shown (inner - 2) t) + 60"
  using row_cut_shown [OF assms(3,4), of "inner - 2"] assms
  by (auto simp: row_shown_def not_less max_def split: if_splits)

lemma prints_row:
  assumes "order_ok te" and "3 \<le> inner" and "inner \<le> 72" and "clean t" and "length t \<le> cells t + 60"
  shows "prints te (row_line te t inner color @ [LF]) (draw_row te t inner color)"
proof (rule printsI)
  fix st assume ok: "console_ok te st"
  let ?s = "row_shown (inner - 2) t"
  have w: "console_visible_width (Some t) = Some (cells t)"
    using clean_cells(2) [OF assms(4)] by (simp add: console_visible_width_def)
  note s = row_shown_fits [OF assms(2-5)]
  have "copies te (ink te color (center_text ?s inner)) (centered te ROW_BUFFER color ?s inner)"
    using s clean_cells(2) [OF s(2)] assms(2,3) by (intro copies_centered) simp_all
  with ok obtain st1 where 1: "centered te ROW_BUFFER color ?s inner st = Some (ink te color (center_text ?s inner), st1)"
      "console_ok te st1" "cs_out st1 = cs_out st"
    by (auto elim: copiesE)
  show "\<exists>st'. draw_row te t inner color st = Some st' \<and> console_ok te st' \<and> cs_out st' = cs_out st @ row_line te t inner color @ [LF]"
    using printsE [OF prints_framed [OF assms(1)] 1(2)] 1 w s(1) assms(2)
    by (simp add: draw_row_def row_line_def Let_def) metis
qed

lemma prints_closing:
  assumes "order_ok te" and "6 < inner" and "inner \<le> 72"
  shows "prints te (closing_line te inner @ [LF]) (draw_closing te inner)"
proof (rule printsI)
  fix st assume "console_ok te st"
  then obtain st1 where 1: "glyph te G_HZ st = (sign te G_HZ, st1)" "console_ok te st1" "cs_out st1 = cs_out st"
    by (rule glyph_copies)
  let ?lead = "(inner - 6) div 2" and ?hz = "\<lambda>n. ink te ''dim'' (concat (replicate n (sign te G_HZ)))"
  let ?copy = "\<lambda>n. copied (RULE_BUFFER + 32) (paint te ''dim'' (str (repeat RULE_BUFFER (sign te G_HZ) n)))"
  let ?core = "concat (replicate 6 [CHR 0xE2, CHR 0x96, CHR 0x80])"
  have "copies te (?hz n) (?copy n)" if "n \<le> 72" for n using that by (rule copies_rule)
  moreover have "?lead \<le> 72" "inner - 6 - ?lead \<le> 72" using assms(3) by simp_all
  ultimately obtain st2 st3 where 2: "?copy ?lead st1 = Some (?hz ?lead, st2)" "cs_out st2 = cs_out st1"
      and 3: "?copy (inner - 6 - ?lead) st2 = Some (?hz (inner - 6 - ?lead), st3)" "console_ok te st3" "cs_out st3 = cs_out st2"
    using 1(2) by (metis copiesE)
  let ?args = "[paint te ''dim'' (glyph_arg te G_BL), str (?hz ?lead), paint te ''amber'' (unicode_or te ?core ''======''),
     str (?hz (inner - 6 - ?lead)), paint te ''dim'' (glyph_arg te G_BR)]"
  let ?nvs = "[(1, ink te ''dim'' (sign te G_BL)), (0, ?hz ?lead), (1, ink te ''amber'' (if unicode te then ?core else ''======'')),
     (0, ?hz (inner - 6 - ?lead)), (1, ink te ''dim'' (sign te G_BR))] :: (nat \<times> cstr) list"
  have "list_all2 (\<lambda>(n, v) a. yields te n v a) ?nvs ?args"
    using yields_paint1 [OF yields_glyph] yields_paint1 [OF yields_unicode_or] yields_str by simp
  then have "prints te (format_s (''%s%s%s%s%s'' @ [LF]) (map snd ?nvs)) (printf te (''%s%s%s%s%s'' @ [LF]) ?args)"
    using assms(1) by (intro prints_printf) simp_all
  moreover have "format_s (''%s%s%s%s%s'' @ [LF]) (map snd ?nvs) = closing_line te inner @ [LF]"
    by (simp add: format_s.simps closing_line_def frame_def Let_def)
  ultimately obtain st4 where "printf te (''%s%s%s%s%s'' @ [LF]) ?args st3 = Some st4" "console_ok te st4"
      "cs_out st4 = cs_out st3 @ closing_line te inner @ [LF]"
    using 3(2) by (auto elim: printsE)
  with 1 2 3 assms(2) show "\<exists>st'. draw_closing te inner st = Some st' \<and> console_ok te st' \<and>
      cs_out st' = cs_out st @ closing_line te inner @ [LF]"
    by (simp add: draw_closing_def Let_def)
qed

section \<open>The width of a line\<close>

lemma visible_ink:
  assumes "ESC \<notin> set t" and "length t \<le> 400"
  shows "visible_loop (ink te name t @ rest) = map_option (\<lambda>w. cells t + w) (visible_loop rest)"
proof (cases "colored te")
  case False
  then show ?thesis using assms(1) by (simp add: ink_def visible_append)
next
  case True
  have "length ([ESC] @ ''['' @ color_code name @ ''m'' @ t @ [ESC] @ ''[0m'') < SLOT_SIZE"
    using length_color_code [of name] assms(2) by simp
  then have ink: "ink te name t = ESC # CHR ''['' # color_code name @ CHR ''m'' # t @ ESC # CHR ''['' # ''0'' @ CHR ''m'' # []"
    using True by (simp add: ink_def snprintf_short)
  have m: "isalpha (CHR ''m'')" "\<forall>c \<in> set ''0''. \<not> isalpha c" by (simp_all add: isalpha_def isupper_def islower_def)
  have "visible_loop (ink te name t @ rest) =
      visible_loop (t @ ESC # CHR ''['' # ''0'' @ CHR ''m'' # rest)"
    unfolding ink using visible_control [of "color_code name" "CHR ''m''"] color_code_no_alpha m(1) by simp
  also have "\<dots> = map_option (\<lambda>w. cells t + w) (visible_loop rest)"
    using visible_control [OF m(2,1), of rest] assms(1) by (simp add: visible_append)
  finally show ?thesis .
qed

lemma visible_frame:
  assumes "g \<in> {G_TL, G_TR, G_VZ, G_BL, G_BR}" and "h \<in> {G_TL, G_TR, G_VZ, G_BL, G_BR}"
    and "\<And>rest. visible_loop (body @ rest) = map_option (\<lambda>w. n + w) (visible_loop rest)"
  shows "visible_loop (frame te g body h) = Some (n + 2)"
proof -
  have glyph: "ESC \<notin> set (sign te g) \<and> cells (sign te g) = 1 \<and> length (sign te g) \<le> 400"
    if "g \<in> {G_TL, G_TR, G_VZ, G_BL, G_BR}" for g
    using that by (auto simp: sign_def G_TL_def G_TR_def G_VZ_def G_BL_def G_BR_def is_continuation_iff)
  show ?thesis
    using glyph [OF assms(1)] glyph [OF assms(2)] assms(3) visible_ink [of "sign te h" te "''dim''" "[]"]
    by (simp add: frame_def visible_ink option.map_comp comp_def)
qed

lemma center_text_cells:
  assumes "length t + w < SLOT_SIZE" and "cells t \<le> w"
  shows "cells (center_text t w) = w" and "set (center_text t w) \<subseteq> set t \<union> {CHR '' ''}"
proof -
  have "center_text t w = replicate ((w - cells t) div 2) CHR '' '' @ t @
      replicate (w - cells t - (w - cells t) div 2) CHR '' ''"
    unfolding center_text_def using assms(1) by (intro snprintf_short) simp
  then show "cells (center_text t w) = w" and "set (center_text t w) \<subseteq> set t \<union> {CHR '' ''}"
    using assms(2) by auto
qed

lemma hz_cells: "cells (concat (replicate n (sign te G_HZ))) = n" "ESC \<notin> set (concat (replicate n (sign te G_HZ)))"
  "n \<le> 72 \<Longrightarrow> length (concat (replicate n (sign te G_HZ))) \<le> 400"
proof -
  show "cells (concat (replicate n (sign te G_HZ))) = n" "ESC \<notin> set (concat (replicate n (sign te G_HZ)))"
    by (induction n) (auto simp: sign_def G_HZ_def is_continuation_iff)
  assume "n \<le> 72"
  then have "n * length (sign te G_HZ) \<le> 72 * 3" using length_sign [of te] by (intro mult_le_mono)
  then show "length (concat (replicate n (sign te G_HZ))) \<le> 400" by (simp add: length_concat sum_list_replicate)
qed

lemma visible_rule: "inner \<le> 72 \<Longrightarrow> visible_loop (rule_line te inner color) = Some (inner + 2)"
  unfolding rule_line_def
  by (intro visible_frame) (simp_all add: visible_ink hz_cells del: set_concat set_replicate)

lemma visible_row:
  assumes "3 \<le> inner" "inner \<le> 72" "clean t" "length t \<le> cells t + 60"
  shows "visible_loop (row_line te t inner color) = Some (inner + 2)"
proof -
  let ?s = "row_shown (inner - 2) t"
  have s: "clean ?s" "cells ?s \<le> inner - 2" "length ?s \<le> inner - 2 + 60"
    using row_shown_fits(2-4) [OF assms] by simp_all
  have fit: "length ?s + inner < SLOT_SIZE" "cells ?s \<le> inner" using s assms(2) by linarith+
  have c: "cells (center_text ?s inner) = inner" "ESC \<notin> set (center_text ?s inner)"
    using center_text_cells [OF fit] clean_cells(2) [OF s(1)] by auto
  have l: "length (center_text ?s inner) \<le> 400"
    using length_center_text(2) [of ?s inner] s assms(2) by linarith
  show ?thesis
    unfolding row_line_def by (rule visible_frame) (simp_all add: visible_ink [OF c(2) l] c(1))
qed

lemma visible_blank: "inner \<le> 72 \<Longrightarrow> visible_loop (blank_line te inner) = Some (inner + 2)"
proof -
  assume "inner \<le> 72"
  then have c: "cells (center_text [] inner) = inner" "ESC \<notin> set (center_text [] inner)"
    using center_text_cells [of "[]" inner] by auto
  show ?thesis unfolding blank_line_def by (rule visible_frame) (simp_all add: visible_append [OF c(2)] c(1))
qed

lemma visible_closing:
  assumes "6 < inner" and "inner \<le> 72"
  shows "visible_loop (closing_line te inner) = Some (inner + 2)"
proof -
  let ?lead = "(inner - 6) div 2" and ?hz = "\<lambda>n. concat (replicate n (sign te G_HZ))"
  define core where "core = (if unicode te then concat (replicate 6 [CHR 0xE2, CHR 0x96, CHR 0x80]) else ''======'')"
  have core: "cells core = 6" "ESC \<notin> set core" "length core \<le> 400"
    by (simp_all add: core_def is_continuation_iff eval_nat_numeral)
  have hz: "visible_loop (ink te ''dim'' (?hz n) @ rest) = map_option (\<lambda>w. n + w) (visible_loop rest)" if "n \<le> 72" for n rest
    using visible_ink [OF hz_cells(2) hz_cells(3) [OF that]] by (simp only: hz_cells(1))
  have "visible_loop ((ink te ''dim'' (?hz ?lead) @ ink te ''amber'' core @ ink te ''dim'' (?hz (inner - 6 - ?lead))) @ rest) =
      map_option (\<lambda>w. inner + w) (visible_loop rest)" for rest
  proof -
    have "?lead + (6 + (inner - 6 - ?lead + w)) = inner + w" for w using assms(1) by simp
    moreover have "?lead \<le> 72" "inner - 6 - ?lead \<le> 72" using assms(2) by simp_all
    ultimately show ?thesis
      by (simp only: append_assoc hz visible_ink [OF core(2,3)] core(1) option.map_comp comp_def)
  qed
  then show ?thesis
    unfolding closing_line_def Let_def core_def [symmetric] by (intro visible_frame) simp_all
qed

section \<open>The text of the screens\<close>

definition dot_text :: "tty_env \<Rightarrow> cstr" where
  "dot_text te = (if unicode te then CHR '' '' # [CHR 0xC2, CHR 0xB7] @ '' '' else '' - '')"

definition version_text :: "tty_env \<Rightarrow> ConsoleInfo \<Rightarrow> cstr" where
  "version_text te info =
     ''v'' @ or_mark (ci_version info) @ dot_text te @ ''HTTP/1.1'' @ dot_text te @ ''JSON'' @ dot_text te @ ''SQLITE WAL''"

definition box_lines :: "tty_env \<Rightarrow> ConsoleInfo \<Rightarrow> cstr list" where
  "box_lines te info =
     (let inner = console_width te - 2; rad = sign te G_RAD
      in [rule_line te inner ''dim'', blank_line te inner, row_line te (rad @ '' REACTOR CORE '' @ rad) inner ''hot'',
          blank_line te inner, row_line te (rad @ '' NUCLEAR C API SERVER '' @ rad) inner ''amber'', blank_line te inner,
          row_line te (version_text te info) inner ''gold'', blank_line te inner,
          row_line te ''RADIATION STATUS: NOMINAL'' inner ''amber'', blank_line te inner, closing_line te inner])"

definition gold_label :: "tty_env \<Rightarrow> cstr \<Rightarrow> nat \<Rightarrow> cstr" where
  "gold_label te t n = ink te ''gold'' (pad_text t n)"

definition auth_text :: "tty_env \<Rightarrow> ConsoleInfo \<Rightarrow> cstr" where
  "auth_text te info = (if ci_auth_protected info then ink te ''red'' ''PROTECTED'' else ink te ''amber'' ''OPEN'')"

definition links_text :: "tty_env \<Rightarrow> ConsoleInfo \<Rightarrow> cstr list" where
  "links_text te info =
     [format_s ([LF] @ ''  %s%s%s'' @ [LF]) [ink te ''hot'' ''LAB'', ink te ''dim'' '' / INTERACTIVE PLAYGROUND'', []],
      format_s (''    %s %s'' @ [LF]) [ink te ''amber'' (sign te G_ARROW), ink te ''cyan'' (banner_url info ''/'')],
      format_s ([LF] @ ''  %s%s%s'' @ [LF]) [ink te ''hot'' ''ENDPOINTS'', ink te ''dim'' '' click to open'', []]] @
     map (\<lambda>(name, path). format_s (''    %s %s %s %s'' @ [LF])
          [ink te ''gold'' (sign te G_TREE), ink te ''bold'' name, ink te ''dim'' ''->'',
           ink te ''cyan'' (banner_url info path)]) banner_endpoints"

definition configuration_text :: "tty_env \<Rightarrow> ConsoleInfo \<Rightarrow> cstr list" where
  "configuration_text te info =
     [format_s ([LF] @ ''  %s%s%s'' @ [LF]) [ink te ''hot'' ''CORE CONFIGURATION'', [], []],
      format_s (''    %s %s'' @ [LF]) [gold_label te ''bind'' 10, or_mark (ci_bind_ip info)],
      format_s (''    %s %s'' @ [LF]) [gold_label te ''workers'' 10, snprintf_buf 32 (show_int (ci_workers info))],
      format_s (''    %s %s'' @ [LF]) [gold_label te ''database'' 10, or_mark (ci_db_path info)],
      format_s (''    %s %s'' @ [LF]) [gold_label te ''auth'' 10, auth_text te info]]"

definition hints_text :: "tty_env \<Rightarrow> cstr list" where
  "hints_text te =
     format_s ([LF] @ ''  %s%s%s'' @ [LF]) [ink te ''hot'' ''HINTS'', ink te ''dim'' '' things to try'', []] #
     map (\<lambda>hint. format_s (''    %s %s'' @ [LF]) [ink te ''gold'' (sign te G_ARROW), ink te ''dim'' hint])
       [''every lab section ships with prefilled examples'',
        ''make run RUN_API_KEY=demo  ->  enables the vault (401 / 403)'',
        ''Ctrl-C  ->  reactor shutdown sequence'']"

definition status_text :: "tty_env \<Rightarrow> ConsoleInfo \<Rightarrow> cstr list" where
  "status_text te info =
     [format_s ([LF] @ ''  %s %s%s'' @ [LF]) [ink te ''hot'' (sign te G_RAD), ink te ''hot'' ''SYSTEM STATUS'', []],
      format_s (''    %s %s %s'' @ [LF])
        [gold_label te ''core'' 12, ink te ''amber'' ''ONLINE'', ink te ''dim'' '' thread pool accepting''],
      format_s (''    %s %s %s'' @ [LF])
        [gold_label te ''radiation'' 12, ink te ''amber'' ''NOMINAL'',
         ink te ''dim'' '' thematic indicator, not a measured value''],
      format_s (''    %s %s'' @ [LF]) [gold_label te ''auth'' 12, auth_text te info],
      [LF]]"

definition banner_text :: "tty_env \<Rightarrow> ConsoleInfo \<Rightarrow> cstr" where
  "banner_text te info =
     concat (map (\<lambda>l. l @ [LF]) (box_lines te info)) @
     concat (links_text te info @ configuration_text te info @ hints_text te @ status_text te info)"

section \<open>Printing the banner\<close>

text \<open>An argument of the banner takes at most two slots, so that four of them fit.\<close>

lemma yields_mono: "yields te n v a \<Longrightarrow> n \<le> m \<Longrightarrow> yields te m v a"
  unfolding yields_def by (meson order.trans)

lemma yields_small:
  "yields te 2 t (str t)" "yields te 2 (ink te name t) (paint te name (str t))"
  "yields te 2 (ink te name (sign te g)) (paint te name (glyph_arg te g))"
  "ESC \<notin> set t \<Longrightarrow> yields te 2 (gold_label te t n) (padded_gold te t n)" "yields te 2 (auth_text te info) (auth_arg te info)"
proof -
  show "yields te 2 t (str t)" by (rule yields_mono [OF yields_str]) simp
  show p: "yields te 2 (ink te name t) (paint te name (str t))" for name t
    by (rule yields_mono [OF yields_paint1 [OF yields_str]]) simp
  show "yields te 2 (ink te name (sign te g)) (paint te name (glyph_arg te g))"
    by (rule yields_mono [OF yields_paint1 [OF yields_glyph]]) simp
  show "yields te 2 (auth_text te info) (auth_arg te info)" by (simp add: auth_text_def auth_arg_def p)
  assume "ESC \<notin> set t"
  then have "yields te (Suc 1) (gold_label te t n) (padded_gold te t n)"
    unfolding gold_label_def padded_gold_def by (intro yields_paint yields_pad) simp_all
  then show "yields te 2 (gold_label te t n) (padded_gold te t n)" by (simp add: eval_nat_numeral)
qed

lemma prints_small:
  assumes "order_ok te" and "list_all2 (yields te 2) vs args" and "length args \<le> 4"
  shows "prints te (format_s fmt vs) (printf te fmt args)"
proof -
  have "list_all2 (\<lambda>(n, v) a. yields te n v a) (map (\<lambda>v. (2, v)) vs) args"
    using assms(2) by (simp add: list_all2_map1)
  moreover have "sum_list (map fst (map (\<lambda>v. (2 :: nat, v)) vs)) \<le> SLOT_COUNT"
    using list_all2_lengthD [OF assms(2)] assms(3) by (simp add: comp_def sum_list_triv)
  ultimately show ?thesis using prints_printf [OF assms(1)] by (fastforce simp: comp_def)
qed

lemma prints_links:
  assumes "order_ok te"
  shows "list_all2 (prints te) (links_text te info) (banner_links te info)"
  unfolding links_text_def banner_links_def banner_endpoints_def list.map append.simps prod.case
  by (intro list.rel_intros prints_small assms yields_small) simp_all

lemma prints_configuration:
  assumes "order_ok te"
  shows "list_all2 (prints te) (configuration_text te info) (banner_configuration te info)"
  unfolding configuration_text_def banner_configuration_def
  by (intro list.rel_intros prints_small assms yields_small) simp_all

lemma prints_hints:
  assumes "order_ok te"
  shows "list_all2 (prints te) (hints_text te) (banner_hints te)"
  unfolding hints_text_def banner_hints_def list.map append.simps
  by (intro list.rel_intros prints_small assms yields_small) simp_all

lemma prints_status:
  assumes "order_ok te"
  shows "list_all2 (prints te) (status_text te info) (banner_status te info (sign te G_RAD))"
  unfolding status_text_def banner_status_def
  by (intro list.rel_intros prints_small prints_put assms yields_small) simp_all

text \<open>The rows of the box are well-formed and short of the array they are copied to.\<close>

definition row_ok :: "cstr \<Rightarrow> bool" where
  "row_ok t \<longleftrightarrow> clean t \<and> length t \<le> cells t + 60"

definition info_ok :: "ConsoleInfo \<Rightarrow> bool" where
  "info_ok info \<longleftrightarrow> list_all printable (or_mark (ci_version info)) \<and> length (or_mark (ci_version info)) \<le> 150"

lemma console_width_bounds: "CONSOLE_MIN_WIDTH \<le> console_width te" "console_width te \<le> CONSOLE_MAX_WIDTH"
  by (simp_all add: console_width_def Let_def)

lemma rad_cells: "clean (sign te G_RAD)" "length (sign te G_RAD) \<le> cells (sign te G_RAD) + 2" "length (sign te G_RAD) \<le> 11"
proof -
  have "is_cell [CHR 0xE2, CHR 0x98, CHR 0xA2]"
    by (simp add: is_cell_def utf8_seq_cases is_continuation_iff)
  moreover have "clean ''[RADIATION]''" using clean_printable by (simp add: printable_def)
  ultimately show "clean (sign te G_RAD)"
    by (simp add: sign_def G_RAD_def is_cell_clean)
  show "length (sign te G_RAD) \<le> cells (sign te G_RAD) + 2" "length (sign te G_RAD) \<le> 11"
    by (simp_all add: sign_def G_RAD_def is_continuation_iff)
qed

lemma dot_cells: "clean (dot_text te)" "length (dot_text te) \<le> cells (dot_text te) + 1" "length (dot_text te) \<le> 4"
proof -
  have "is_cell [CHR 0xC2, CHR 0xB7]" "clean '' ''" "clean '' - ''"
    using clean_printable by (simp_all add: is_cell_def utf8_seq_cases is_continuation_iff printable_def)
  then show "clean (dot_text te)"
    using clean_append(1) [of "'' ''" "[CHR 0xC2, CHR 0xB7] @ '' ''"] is_cell_clean
      clean_append(1) [of "[CHR 0xC2, CHR 0xB7]" "'' ''"] by (simp add: dot_text_def)
  show "length (dot_text te) \<le> cells (dot_text te) + 1" "length (dot_text te) \<le> 4"
    by (simp_all add: dot_text_def is_continuation_iff)
qed

lemma printable_row: "list_all printable t \<Longrightarrow> row_ok t"
  using clean_printable [of t] by (simp add: row_ok_def)

lemma row_ok_title:
  assumes "list_all printable t"
  shows "row_ok (sign te G_RAD @ t @ sign te G_RAD)"
  using clean_printable [OF assms] rad_cells [of te] by (simp add: row_ok_def)

lemma row_ok_version: "info_ok info \<Longrightarrow> row_ok (version_text te info)"
proof -
  assume "info_ok info"
  then have "clean (or_mark (ci_version info)) \<and> cells (or_mark (ci_version info)) = length (or_mark (ci_version info))"
    by (intro clean_printable) (simp add: info_ok_def)
  moreover have "clean ''v''" "clean ''HTTP/1.1''" "clean ''JSON''" "clean ''SQLITE WAL''"
    using clean_printable by (simp_all add: printable_def)
  moreover have "cells ''v'' = 1" "cells ''HTTP/1.1'' = 8" "cells ''JSON'' = 4" "cells ''SQLITE WAL'' = 10"
    by (simp_all add: is_continuation_iff)
  ultimately show ?thesis
    using dot_cells [of te] unfolding row_ok_def version_text_def
    by (simp only: clean_append cells_simps(3) length_append) simp
qed

lemma prints_box:
  assumes "order_ok te" and "info_ok info"
  shows "list_all2 (prints te) (map (\<lambda>l. l @ [LF]) (box_lines te info)) (banner_box te info (dot_text te) (sign te G_RAD))"
proof -
  let ?inner = "console_width te - 2" and ?rad = "sign te G_RAD" and ?dot = "dot_text te"
  have inner: "46 \<le> ?inner" "?inner \<le> 72" using console_width_bounds [of te] by simp_all
  have row: "prints te (row_line te t ?inner color @ [LF]) (draw_row te t ?inner color)" if "row_ok t" for t color
    using that assms(1) inner by (intro prints_row) (simp_all add: row_ok_def)
  have fits: "snprintf_buf 64 (?rad @ '' REACTOR CORE '' @ ?rad) = ?rad @ '' REACTOR CORE '' @ ?rad"
      "snprintf_buf 80 (?rad @ '' NUCLEAR C API SERVER '' @ ?rad) = ?rad @ '' NUCLEAR C API SERVER '' @ ?rad"
      "snprintf_buf 160 (''HTTP/1.1'' @ ?dot @ ''JSON'' @ ?dot @ ''SQLITE WAL'') =
         ''HTTP/1.1'' @ ?dot @ ''JSON'' @ ?dot @ ''SQLITE WAL''"
    using rad_cells(3) [of te] dot_cells(3) [of te] by (simp_all add: snprintf_short)
  have "length (version_text te info) < 192"
    using assms(2) dot_cells(3) [of te] by (simp add: version_text_def info_ok_def)
  then have version: "snprintf_buf 192 (''v'' @ or_mark (ci_version info) @ ?dot @
      ''HTTP/1.1'' @ ?dot @ ''JSON'' @ ?dot @ ''SQLITE WAL'') = version_text te info"
    unfolding version_text_def by (rule snprintf_short)
  have ok: "row_ok (?rad @ '' REACTOR CORE '' @ ?rad)" "row_ok (?rad @ '' NUCLEAR C API SERVER '' @ ?rad)"
      "row_ok (version_text te info)" "row_ok ''RADIATION STATUS: NOMINAL''"
    by (rule row_ok_title row_ok_version [OF assms(2)] printable_row; simp add: printable_def)+
  show ?thesis
    unfolding box_lines_def banner_box_def Let_def fits version list.map
    by (intro list.rel_intros prints_rule prints_blank prints_closing row ok assms(1)) (use inner in simp_all)
qed

lemma prints_banner:
  assumes "order_ok te" and "info_ok info"
  shows "prints te (banner_text te info) (console_print_banner te (Some info))"
proof (rule printsI)
  fix st assume "console_ok te st"
  then obtain st1 where 1: "unicode_enabled te st = (unicode te, st1)" "console_ok te st1" "cs_out st1 = cs_out st"
    by (rule unicode_copies)
  from 1(2) obtain st2 where 2: "glyph te G_RAD st1 = (sign te G_RAD, st2)" "console_ok te st2" "cs_out st2 = cs_out st1"
    by (rule glyph_copies)
  have p: "prints te (banner_text te info)
      (seq (banner_box te info (dot_text te) (sign te G_RAD) @ banner_links te info @ banner_configuration te info @
         banner_hints te @ banner_status te info (sign te G_RAD)))"
    unfolding banner_text_def concat_append [symmetric]
    by (intro prints_seq list_all2_appendI prints_box prints_links prints_configuration prints_hints prints_status assms)
  from p 2(2) obtain st3 where "seq (banner_box te info (dot_text te) (sign te G_RAD) @ banner_links te info @
        banner_configuration te info @ banner_hints te @ banner_status te info (sign te G_RAD)) st2 = Some st3"
      "console_ok te st3" "cs_out st3 = cs_out st2 @ banner_text te info"
    by (rule printsE)
  with 1 2 show "\<exists>st'. console_print_banner te (Some info) st = Some st' \<and> console_ok te st' \<and>
      cs_out st' = cs_out st @ banner_text te info"
    by (simp add: console_print_banner_def dot_text_def Let_def)
qed

end
