(* ===== verification/Console_Props.thy ===== *)
theory Console_Props
  imports Console_Screen
begin

text \<open>
  The boot sequence and the shutdown list, and the properties of the terminal output.
\<close>

section \<open>Boot and shutdown texts\<close>

definition boot_row :: "tty_env \<Rightarrow> nat \<Rightarrow> cstr \<Rightarrow> cstr \<Rightarrow> cstr" where
  "boot_row te inner left right =
     [CR] @ ''  '' @ ink te ''gold'' left @
     replicate (if inner > cells left + cells right then (inner - cells left - cells right) div 2 else 1) CHR '' '' @
     ink te ''amber'' right @ [ESC] @ ''[K''"

definition bar_text :: "tty_env \<Rightarrow> nat \<Rightarrow> nat \<Rightarrow> cstr" where
  "bar_text te width percent =
     [CR] @ ''  '' @
     ink te ''amber'' (concat (replicate (width * percent div 100) (if unicode te then [CHR 0xE2, CHR 0x96, CHR 0x88] else ''#''))) @
     ink te ''dim'' (concat (replicate (width - width * percent div 100) (if unicode te then [CHR 0xE2, CHR 0x96, CHR 0x91] else ''.''))) @
     ''  '' @ rjust 3 (show_nat percent) @ ''%'' @ [ESC] @ ''[K''"

definition center_ink :: "tty_env \<Rightarrow> cstr \<Rightarrow> cstr \<Rightarrow> nat \<Rightarrow> cstr" where
  "center_ink te color t w = ink te color (center_text t w)"

definition boot_text :: "tty_env \<Rightarrow> cstr list" where
  "boot_text te =
     (let inner = console_width te - 2
      in [[LF],
          center_ink te ''hot'' (sign te G_RAD) 16 @ [LF] @ center_ink te ''gold'' ''REACTOR'' 16 @ [LF, LF],
          ''  '' @ center_ink te ''gold'' ''NUCLEAR REACTOR - CORE BOOT'' inner @ [LF],
          ''  '' @ center_ink te ''dim'' (sign te G_HZ) inner @ [LF, LF]] @
         map (\<lambda>(tag, message). boot_row te inner (''  ['' @ ljust 9 tag @ ''] '' @ message) (''['' @ sign te G_OK @ '']'')) boot_steps @
         map (bar_text te (inner - 30)) [0, 20, 40, 60, 80, 100] @
         [([LF, LF] @ ''  '') @ center_ink te ''hot'' ''CORE ONLINE'' inner @ [LF, LF]])"

definition shutdown_text :: "tty_env \<Rightarrow> cstr list" where
  "shutdown_text te =
     format_s ([LF] @ ''  %s %s'' @ [LF]) [ink te ''hot'' (sign te G_RAD), ink te ''hot'' ''SHUTTING DOWN REACTOR''] #
     map (\<lambda>step. format_s (''  [%s] %s%s%s'' @ [LF]) [ink te ''amber'' (sign te G_OK), ink te ''dim'' step, [], []])
       shutdown_steps @ [[LF]]"

lemma prints_put_centered:
  assumes "clean t" and "length t \<le> cells t + 60" and "inner \<le> 72" and "cells t \<le> 72"
  shows "prints te (b @ center_ink te color t inner @ a) (put_centered te color t inner b a)"
proof (rule printsI)
  fix st assume "console_ok te st"
  moreover have "copies te (center_ink te color t inner) (centered te (RULE_BUFFER + 32) color t inner)"
    unfolding center_ink_def using assms clean_cells(2) [OF assms(1)] by (intro copies_centered) simp_all
  ultimately obtain st1 where "centered te (RULE_BUFFER + 32) color t inner st = Some (center_ink te color t inner, st1)"
      "console_ok te st1" "cs_out st1 = cs_out st"
    by (auto elim: copiesE)
  then show "\<exists>st'. put_centered te color t inner b a st = Some st' \<and> console_ok te st' \<and>
      cs_out st' = cs_out st @ b @ center_ink te color t inner @ a"
    by (simp add: put_centered_def put_def console_ok_def)
qed

lemma prints_mark:
  "prints te (center_ink te ''hot'' (sign te G_RAD) 16 @ [LF] @ center_ink te ''gold'' ''REACTOR'' 16 @ [LF, LF])
     (draw_reactor_mark te)"
proof (rule printsI)
  fix st assume "console_ok te st"
  then obtain st1 where 1: "glyph te G_RAD st = (sign te G_RAD, st1)" "console_ok te st1" "cs_out st1 = cs_out st"
    by (rule glyph_copies)
  have "copies te (center_ink te ''hot'' (sign te G_RAD) 16) (centered te 64 ''hot'' (sign te G_RAD) 16)"
    unfolding center_ink_def using rad_cells [of te] clean_cells(2) [of "sign te G_RAD"] length_center_text(1) [of "sign te G_RAD"]
    by (intro copies_centered) simp_all
  from this 1(2) obtain st2 where 2: "centered te 64 ''hot'' (sign te G_RAD) 16 st1 = Some (center_ink te ''hot'' (sign te G_RAD) 16, st2)"
      "console_ok te st2" "cs_out st2 = cs_out st1"
    by (rule copiesE)
  from prints_put 2(2) obtain st3 where 3: "put (center_ink te ''hot'' (sign te G_RAD) 16 @ [LF]) st2 = Some st3"
      "console_ok te st3" "cs_out st3 = cs_out st2 @ center_ink te ''hot'' (sign te G_RAD) 16 @ [LF]"
    by (rule printsE)
  have "copies te (center_ink te ''gold'' ''REACTOR'' 16) (centered te 64 ''gold'' ''REACTOR'' 16)"
    unfolding center_ink_def by (intro copies_centered) (simp_all add: is_continuation_iff)
  from this 3(2) obtain st4 where 4: "centered te 64 ''gold'' ''REACTOR'' 16 st3 = Some (center_ink te ''gold'' ''REACTOR'' 16, st4)"
      "console_ok te st4" "cs_out st4 = cs_out st3"
    by (rule copiesE)
  from prints_put 4(2) obtain st5 where "put (center_ink te ''gold'' ''REACTOR'' 16 @ [LF, LF]) st4 = Some st5"
      "console_ok te st5" "cs_out st5 = cs_out st4 @ center_ink te ''gold'' ''REACTOR'' 16 @ [LF, LF]"
    by (rule printsE)
  with 1 2 3 4 show "\<exists>st'. draw_reactor_mark te st = Some st' \<and> console_ok te st' \<and> cs_out st' =
      cs_out st @ center_ink te ''hot'' (sign te G_RAD) 16 @ [LF] @ center_ink te ''gold'' ''REACTOR'' 16 @ [LF, LF]"
    by (simp add: draw_reactor_mark_def)
qed

lemma prints_boot_line:
  assumes "left = ''  ['' @ ljust 9 tag @ ''] '' @ message" "right = ''['' @ status @ '']''"
    and "ESC \<notin> set left" "ESC \<notin> set right" "length left \<le> 150" "length right \<le> 40" "inner \<le> 72"
  shows "prints te (boot_row te inner left right) (boot_line te inner tag message status ''amber'')"
proof (rule printsI)
  fix st assume ok: "console_ok te st"
  have w: "console_visible_width (Some left) = Some (cells left)" "console_visible_width (Some right) = Some (cells right)"
    and f: "snprintf_buf 192 left = left" "snprintf_buf 48 right = right"
    using assms(3-6) by (simp_all add: console_visible_width_def snprintf_short)
  define gap where "gap = (if cells left + cells right < inner then (inner - cells left - cells right) div 2 else 1)"
  have "m div 2 < 1000" if "m \<le> 72" for m :: nat using that by simp
  then have "gap < 1000" using assms(7) by (simp add: gap_def)
  then have gap: "spaces gap = replicate gap CHR '' ''" by (simp add: spaces_replicate)
  have "copies te (ink te ''gold'' left) (copied 256 (paint te ''gold'' (str left)))"
    "copies te (ink te ''amber'' right) (copied 64 (paint te ''amber'' (str right)))"
    using assms(5,6) by (intro copies_paint [OF yields_str]; simp)+
  then obtain st1 st2 where "copied 256 (paint te ''gold'' (str left)) st = Some (ink te ''gold'' left, st1)"
      "copied 64 (paint te ''amber'' (str right)) st1 = Some (ink te ''amber'' right, st2)" "console_ok te st2"
      "cs_out st2 = cs_out st"
    using ok by (metis copiesE)
  then show "\<exists>st'. boot_line te inner tag message status ''amber'' st = Some st' \<and> console_ok te st' \<and>
      cs_out st' = cs_out st @ boot_row te inner left right"
    unfolding boot_line_def assms(1,2) [symmetric] f Let_def w bind.bind_lunit gap_def [symmetric] gap
    by (simp add: boot_row_def put_def console_ok_def gap_def [symmetric])
qed

lemma copies_repeat:
  assumes "n \<le> 72" and "length u \<le> 3"
  shows "copies te (ink te color (concat (replicate n u))) (copied (RULE_BUFFER + 32) (paint te color (str (repeat RULE_BUFFER u n))))"
proof -
  have "n * length u \<le> 72 * 3" using assms by (intro mult_le_mono)
  then have "repeat RULE_BUFFER u n = concat (replicate n u)" "length (concat (replicate n u)) \<le> 216"
    by (simp_all add: repeat_concat length_concat sum_list_replicate)
  then show ?thesis using copies_paint [OF yields_str, of "concat (replicate n u)" "RULE_BUFFER + 32" te color] by simp
qed

lemma prints_bar:
  assumes "width \<le> 72" and "percent \<le> 100"
  shows "prints te (bar_text te width percent) (boot_bar te width percent)"
proof (rule printsI)
  fix st assume "console_ok te st"
  then obtain st1 where 1: "unicode_enabled te st = (unicode te, st1)" "console_ok te st1" "cs_out st1 = cs_out st"
    by (rule unicode_copies)
  from 1(2) obtain st2 where 2: "unicode_enabled te st1 = (unicode te, st2)" "console_ok te st2" "cs_out st2 = cs_out st1"
    by (rule unicode_copies)
  let ?full = "if unicode te then [CHR 0xE2, CHR 0x96, CHR 0x88] else ''#''"
    and ?rest = "if unicode te then [CHR 0xE2, CHR 0x96, CHR 0x91] else ''.''"
  define k where "k = width * percent div 100"
  have "width * percent div 100 \<le> width * 100 div 100" using assms(2) by (intro div_le_mono mult_le_mono2)
  then have k: "k \<le> 72" "width - k \<le> 72" using assms(1) by (simp_all add: k_def)
  have "copies te (ink te ''amber'' (concat (replicate k ?full))) (copied (RULE_BUFFER + 32) (paint te ''amber'' (str (repeat RULE_BUFFER ?full k))))"
    "copies te (ink te ''dim'' (concat (replicate (width - k) ?rest))) (copied (RULE_BUFFER + 32) (paint te ''dim'' (str (repeat RULE_BUFFER ?rest (width - k)))))"
    using k by (intro copies_repeat; simp)+
  then obtain st3 st4 where
    "copied (RULE_BUFFER + 32) (paint te ''amber'' (str (repeat RULE_BUFFER ?full k))) st2 = Some (ink te ''amber'' (concat (replicate k ?full)), st3)"
    "copied (RULE_BUFFER + 32) (paint te ''dim'' (str (repeat RULE_BUFFER ?rest (width - k)))) st3 =
       Some (ink te ''dim'' (concat (replicate (width - k) ?rest)), st4)" "console_ok te st4" "cs_out st4 = cs_out st2"
    using 2(2) by (metis copiesE)
  with 1 2 show "\<exists>st'. boot_bar te width percent st = Some st' \<and> console_ok te st' \<and> cs_out st' = cs_out st @ bar_text te width percent"
    by (simp add: boot_bar_def bar_text_def put_def console_ok_def Let_def k_def [symmetric])
qed

lemma boot_steps_short:
  assumes "(tag, message) \<in> set boot_steps"
  shows "ESC \<notin> set (''  ['' @ ljust 9 tag @ ''] '' @ message)" "length (''  ['' @ ljust 9 tag @ ''] '' @ message) \<le> 150"
  using assms by (auto simp: boot_steps_def ljust_def)

lemma prints_boot:
  assumes "\<not> (\<not> console_is_tty te \<or> env_flag_set te ''CONSOLE_NO_ANIMATION'' \<or> env_flag_set te ''CI'')"
  shows "prints te (concat (boot_text te)) (console_print_boot te)"
proof (rule printsI)
  fix st assume "console_ok te st"
  then obtain st1 where 1: "glyph te G_HZ st = (sign te G_HZ, st1)" "console_ok te st1" "cs_out st1 = cs_out st"
    by (rule glyph_copies)
  from 1(2) obtain st2 where 2: "glyph te G_OK st1 = (sign te G_OK, st2)" "console_ok te st2" "cs_out st2 = cs_out st1"
    by (rule glyph_copies)
  from 2(2) obtain st3 where 3: "glyph te G_RAD st2 = (sign te G_RAD, st3)" "console_ok te st3" "cs_out st3 = cs_out st2"
    by (rule glyph_copies)
  define inner where "inner = console_width te - 2"
  have inner: "46 \<le> inner" "inner \<le> 72" using console_width_bounds [of te] by (simp_all add: inner_def)
  have ok: "ESC \<notin> set (sign te G_OK)" "length (sign te G_OK) \<le> 3" by (simp_all add: sign_def G_OK_def)
  have rows: "list_all2 (prints te)
      (map (\<lambda>(tag, message). boot_row te inner (''  ['' @ ljust 9 tag @ ''] '' @ message) (''['' @ sign te G_OK @ '']'')) boot_steps)
      (map (\<lambda>(tag, message). boot_line te inner tag message (sign te G_OK) ''amber'') boot_steps)"
    unfolding list.rel_map case_prod_beta
  proof (rule list.rel_refl_strong)
    fix p assume "p \<in> set boot_steps"
    then have "(fst p, snd p) \<in> set boot_steps" by simp
    from boot_steps_short [OF this] ok inner
    show "prints te (boot_row te inner (''  ['' @ ljust 9 (fst p) @ ''] '' @ snd p) (''['' @ sign te G_OK @ '']''))
        (boot_line te inner (fst p) (snd p) (sign te G_OK) ''amber'')"
      by (intro prints_boot_line) simp_all
  qed
  have bars: "list_all2 (prints te) (map (bar_text te (inner - 30)) [0, 20, 40, 60, 80, 100])
      (map (boot_bar te (inner - 30)) [0, 20, 40, 60, 80, 100])"
    using inner by (auto simp: list.rel_map intro!: list.rel_refl_strong prints_bar)
  have txts: "clean ''NUCLEAR REACTOR - CORE BOOT''" "clean ''CORE ONLINE''" "clean (sign te G_HZ)"
    using clean_printable is_cell_clean
    by (simp_all add: sign_def G_HZ_def printable_def is_cell_def utf8_seq_cases is_continuation_iff)
  have "list_all2 (prints te) (boot_text te)
     ([put [LF], draw_reactor_mark te,
       put_centered te ''gold'' ''NUCLEAR REACTOR - CORE BOOT'' inner ''  '' [LF],
       put_centered te ''dim'' (sign te G_HZ) inner ''  '' [LF, LF]] @
      map (\<lambda>(tag, message). boot_line te inner tag message (sign te G_OK) ''amber'') boot_steps @
      map (boot_bar te (inner - 30)) [0, 20, 40, 60, 80, 100] @
      [put_centered te ''hot'' ''CORE ONLINE'' inner ([LF, LF] @ ''  '') [LF, LF]])" (is "list_all2 _ _ ?stmts")
    unfolding boot_text_def Let_def inner_def [symmetric]
    by (intro list_all2_appendI list.rel_intros rows bars prints_put prints_mark prints_put_centered txts)
      (use inner in \<open>simp_all add: is_continuation_iff sign_def G_HZ_def\<close>)
  from prints_seq [OF this] 3(2) obtain st4 where "seq ?stmts st3 = Some st4" "console_ok te st4"
      "cs_out st4 = cs_out st3 @ concat (boot_text te)"
    by (rule printsE)
  moreover have "(if 30 < inner then inner - 30 else 16) = inner - 30" using inner by simp
  ultimately show "\<exists>st'. console_print_boot te st = Some st' \<and> console_ok te st' \<and> cs_out st' = cs_out st @ concat (boot_text te)"
    using 1 2 3 assms unfolding console_print_boot_def inner_def [symmetric] Let_def by simp
qed

lemma prints_shutdown:
  assumes "order_ok te" and "console_is_tty te"
  shows "prints te (concat (shutdown_text te)) (console_print_shutdown te)"
proof (rule printsI)
  fix st assume "console_ok te st"
  then obtain st1 where 1: "glyph te G_OK st = (sign te G_OK, st1)" "console_ok te st1" "cs_out st1 = cs_out st"
    by (rule glyph_copies)
  have "list_all2 (prints te) (shutdown_text te)
     ([printf te ([LF] @ ''  %s %s'' @ [LF]) [paint te ''hot'' (glyph_arg te G_RAD), paint te ''hot'' (str ''SHUTTING DOWN REACTOR'')]] @
      map (\<lambda>step. printf te (''  [%s] %s%s%s'' @ [LF]) [paint te ''amber'' (str (sign te G_OK)), paint te ''dim'' (str step), str [], str []])
        shutdown_steps @ [put [LF]])" (is "list_all2 _ _ ?stmts")
    unfolding shutdown_text_def shutdown_steps_def list.map append.simps
    by (intro list.rel_intros prints_small prints_put assms yields_small) simp_all
  from prints_seq [OF this] 1(2) obtain st2 where "seq ?stmts st1 = Some st2" "console_ok te st2"
      "cs_out st2 = cs_out st1 @ concat (shutdown_text te)"
    by (rule printsE)
  with 1 assms(2) show "\<exists>st'. console_print_shutdown te st = Some st' \<and> console_ok te st' \<and> cs_out st' = cs_out st @ concat (shutdown_text te)"
    unfolding console_print_shutdown_def by simp
qed

section \<open>Output that is not a terminal\<close>

definition plain_char :: "char \<Rightarrow> bool" where
  "plain_char c \<longleftrightarrow> printable c \<or> c = LF"

lemma plain_char_simps: "plain_char c \<longleftrightarrow> 32 \<le> uchar c \<and> uchar c < 127 \<or> uchar c = 10"
  by (auto simp: plain_char_def printable_def dest: uchar_inj [of c LF, simplified])

lemma plain_take: "list_all P t \<Longrightarrow> list_all P (snprintf_buf n t)"
  by (auto simp: snprintf_buf_def list_all_iff dest: in_set_takeD)

lemma plain_format: "list_all P fmt \<Longrightarrow> list_all (list_all P) ts \<Longrightarrow> list_all P (format_s fmt ts)"
proof (induction fmt ts rule: format_s.induct)
  case (1 fmt ts)
  show ?case
  proof (cases fmt)
    case (Cons c f)
    have "list_all (list_all P) (tl ts)" using 1(4) by (cases ts) simp_all
    moreover have "list_all P (tl f)" using 1(3) Cons by (cases f) simp_all
    moreover have "ts \<noteq> [] \<Longrightarrow> list_all P (hd ts)" using 1(4) by (cases ts) simp_all
    ultimately show ?thesis using 1 Cons by (subst format_s.simps) simp
  qed (simp add: format_s.simps)
qed

lemma plain_center: "list_all plain_char t \<Longrightarrow> list_all plain_char (center_text t w)"
  unfolding center_text_def by (rule plain_take) (auto simp: list_all_iff plain_char_simps)

lemma plain_pad: "list_all plain_char t \<Longrightarrow> list_all plain_char (pad_text t w)"
  using plain_take [of plain_char t] by (auto simp: pad_text_def Let_def list_all_iff plain_char_simps)

lemma plain_shown: "list_all plain_char t \<Longrightarrow> list_all plain_char (row_shown room t)"
proof -
  assume a: "list_all plain_char t"
  have "set (concat (take k cs)) \<subseteq> set (concat cs)" for k and cs :: "cstr list"
    by (auto dest: in_set_takeD)
  from this [of _ "utf8_cells t"] have sub: "set (concat (take k (utf8_cells t))) \<subseteq> set t" for k by simp
  have "list_all plain_char (concat (take k (utf8_cells t)))" for k
    using a sub [of k] unfolding list_all_iff by blast
  with a show ?thesis by (simp add: row_shown_def plain_char_simps)
qed

lemma plain_digits: "list_all plain_char (show_nat n)" "list_all plain_char (show_int i)"
proof -
  show n: "list_all plain_char (show_nat n)" for n
    using show_nat_digits by (fastforce simp: list_all_iff plain_char_simps isdigit_def)
  show "list_all plain_char (show_int i)" using n by (simp add: show_int_def plain_char_simps)
qed

text \<open>The strings of \<open>ConsoleInfo\<close> are printable ASCII.\<close>

definition info_plain :: "ConsoleInfo \<Rightarrow> bool" where
  "info_plain info \<longleftrightarrow> list_all printable (or_mark (ci_bind_ip info)) \<and> list_all printable (ci_link_host info) \<and>
     list_all printable (or_mark (ci_db_path info)) \<and> list_all printable (or_mark (ci_version info))"

lemma printable_plain: "list_all printable t \<Longrightarrow> list_all plain_char t"
  by (simp add: list_all_iff plain_char_def)

lemma plain_box:
  assumes "\<not> console_is_tty te" and "info_plain info"
  shows "list_all (list_all plain_char) (box_lines te info)"
proof -
  have ink: "ink te name t = t" and sign: "sign te g = gl_ascii g" for name t g
    using assms(1) by (simp_all add: ink_def colored_def sign_def unicode_def)
  have frame: "list_all plain_char (frame te g body h)" if "list_all plain_char body"
      "g \<in> {G_TL, G_TR, G_VZ, G_BL, G_BR}" "h \<in> {G_TL, G_TR, G_VZ, G_BL, G_BR}" for body g h
    using that by (auto simp: frame_def ink sign G_TL_def G_TR_def G_VZ_def G_BL_def G_BR_def plain_char_simps)
  have hz: "list_all plain_char (concat (replicate n (sign te G_HZ)))" for n
    by (auto simp: sign G_HZ_def list_all_iff plain_char_simps)
  have row: "list_all plain_char (row_line te t w color)" if "list_all plain_char t" for t w color
    unfolding row_line_def using that by (intro frame) (simp_all add: ink plain_center plain_shown)
  have blank: "list_all plain_char (blank_line te w)" for w
    unfolding blank_line_def by (intro frame plain_center) simp_all
  have rule: "list_all plain_char (rule_line te w color)" for w color
    unfolding rule_line_def ink by (intro frame hz) simp_all
  have closing: "list_all plain_char (closing_line te w)" for w
    unfolding closing_line_def Let_def ink using assms(1)
    by (intro frame) (simp_all only: list_all_append hz unicode_def, simp_all add: plain_char_simps)
  have "list_all plain_char (version_text te info)"
    using assms printable_plain [of "or_mark (ci_version info)"]
    by (simp add: version_text_def dot_text_def unicode_def info_plain_def plain_char_simps)
  then show ?thesis
    unfolding box_lines_def Let_def list.pred_inject(2)
    by (intro conjI row blank rule closing) (simp_all add: sign G_RAD_def plain_char_simps)
qed

lemma plain_rest:
  assumes "\<not> console_is_tty te" and "info_plain info"
  shows "list_all (list_all plain_char) (links_text te info @ configuration_text te info @ hints_text te @ status_text te info)"
proof -
  have ink: "ink te name t = t" and sign: "sign te g = gl_ascii g" for name t g
    using assms(1) by (simp_all add: ink_def colored_def sign_def unicode_def)
  have "list_all plain_char (banner_url info path)" if "list_all plain_char path" for path
    unfolding banner_url_def using that assms(2) printable_plain [of "ci_link_host info"] plain_digits
    by (intro plain_take) (simp add: info_plain_def plain_char_simps)
  then have "list_all (list_all plain_char) (links_text te info)"
    unfolding links_text_def banner_endpoints_def ink sign list.map prod.case append.simps list.pred_inject
    by (intro conjI plain_format) (simp_all add: G_ARROW_def G_TREE_def plain_char_simps)
  moreover have "list_all (list_all plain_char) (configuration_text te info)"
    unfolding configuration_text_def gold_label_def auth_text_def ink list.pred_inject
    using assms(2) by (intro conjI plain_format)
      (simp_all add: printable_plain plain_take plain_digits info_plain_def, simp_all add: plain_pad plain_char_simps)
  moreover have "list_all (list_all plain_char) (hints_text te)"
    unfolding hints_text_def ink sign list.map list.pred_inject
    by (intro conjI plain_format) (simp_all add: G_ARROW_def plain_char_simps)
  moreover have "list_all (list_all plain_char) (status_text te info)"
    unfolding status_text_def gold_label_def auth_text_def ink sign list.pred_inject
    by (intro conjI plain_format) (simp_all add: plain_pad G_RAD_def plain_char_simps)
  ultimately show ?thesis by simp
qed

text \<open>The two screens that depend on the kind of \<open>stdout\<close>.\<close>

lemma boot_prints:
  assumes "console_ok te st"
  shows "\<exists>st'. console_print_boot te st = Some st' \<and> console_ok te st' \<and> cs_out st' = cs_out st @
    (if \<not> console_is_tty te \<or> env_flag_set te ''CONSOLE_NO_ANIMATION'' \<or> env_flag_set te ''CI'' then []
     else concat (boot_text te))"
proof (cases "\<not> console_is_tty te \<or> env_flag_set te ''CONSOLE_NO_ANIMATION'' \<or> env_flag_set te ''CI''")
  case True
  then show ?thesis using assms by (simp add: console_print_boot_def)
next
  case False
  from prints_boot [OF False] assms obtain st' where "console_print_boot te st = Some st'" "console_ok te st'"
      "cs_out st' = cs_out st @ concat (boot_text te)"
    by (rule printsE)
  then show ?thesis unfolding if_not_P [OF False] by blast
qed

lemma shutdown_prints:
  assumes "order_ok te" and "console_ok te st"
  shows "\<exists>st'. console_print_shutdown te st = Some st' \<and> cs_out st' = cs_out st @
    (if console_is_tty te then concat (shutdown_text te) else [])"
proof (cases "console_is_tty te")
  case True
  from prints_shutdown [OF assms(1) True] assms(2) obtain st' where "console_print_shutdown te st = Some st'"
      "cs_out st' = cs_out st @ concat (shutdown_text te)"
    by (rule printsE)
  with True show ?thesis by simp
qed (simp add: console_print_shutdown_def)

section \<open>Properties of the terminal output\<close>

text \<open>C11: the slots that \<open>console_colorize\<close>, \<open>console_center\<close> and
  \<open>console_pad_right\<close> hand out are never overwritten before they are printed.  Whatever
  order the compiler evaluates the arguments in and whatever the slots held before, the
  screens are printed without leaving an array, and are exactly the texts \<open>banner_text\<close>,
  \<open>boot_text\<close> and \<open>shutdown_text\<close>, which are functions of the environment and
  the configuration alone.\<close>

theorem console_screens_exact:
  assumes "order_ok te" and "console_ok te st" and "info_ok info"
  shows "(\<exists>st'. console_print_banner te (Some info) st = Some st' \<and> cs_out st' = cs_out st @ banner_text te info) \<and>
    (\<exists>st'. console_print_boot te st = Some st' \<and> cs_out st' = cs_out st @
       (if \<not> console_is_tty te \<or> env_flag_set te ''CONSOLE_NO_ANIMATION'' \<or> env_flag_set te ''CI'' then []
        else concat (boot_text te))) \<and>
    (\<exists>st'. console_print_shutdown te st = Some st' \<and> cs_out st' = cs_out st @
       (if console_is_tty te then concat (shutdown_text te) else []))"
  using printsE [OF prints_banner [OF assms(1,3)] assms(2)] boot_prints [OF assms(2)] shutdown_prints [OF assms(1,2)]
  by (intro conjI) metis+

text \<open>A terminal with colours and UTF-8 whose compiler evaluates arguments from right to left.\<close>

definition sample_tty :: tty_env where
  "sample_tty = \<lparr>te_isatty = True, te_getenv = (\<lambda>v. if v = ''LANG'' then Some ''en_US.UTF-8'' else None),
     te_winsize = Some 120, te_order = (\<lambda>n. rev [0..<n])\<rparr>"

definition sample_info :: ConsoleInfo where
  "sample_info = \<lparr>ci_bind_ip = Some ''0.0.0.0'', ci_link_host = ''127.0.0.1'', ci_db_path = Some ''./data/app.db'',
     ci_version = Some ''1.0.0'', ci_port = 8080, ci_workers = 8, ci_auth_protected = False\<rparr>"

lemma samples_ok: "order_ok sample_tty" "order_ok (sample_tty\<lparr>te_isatty := False\<rparr>)" "console_ok te console_start"
  "info_ok sample_info" "info_plain sample_info"
  by (simp_all add: order_ok_def sample_tty_def console_ok_def console_start_def cache_ok_def info_ok_def info_plain_def
      sample_info_def or_mark_def printable_def)

theorem console_screens_exact_witness:
  "\<exists>st'. console_print_banner sample_tty (Some sample_info) console_start = Some st' \<and>
     cs_out st' = banner_text sample_tty sample_info"
  using console_screens_exact [OF samples_ok(1) samples_ok(3) samples_ok(4)] by (simp add: console_start_def)

text \<open>C15: the banner box is aligned.  On every terminal, with or without colours and box
  glyphs, and for every version text, its eleven lines have exactly the width that
  \<open>console_width\<close> computed, between 48 and 74 cells, counted without control sequences
  and per character instead of per byte; long rows are truncated, never wrapped.\<close>

theorem banner_box_aligned:
  assumes "order_ok te" and "console_ok te st" and "info_ok info"
  shows "\<exists>st' lines rest. console_print_banner te (Some info) st = Some st' \<and>
    cs_out st' = cs_out st @ concat (map (\<lambda>l. l @ [LF]) lines) @ rest \<and> length lines = 11 \<and>
    list_all (\<lambda>l. console_visible_width (Some l) = Some (console_width te)) lines \<and>
    CONSOLE_MIN_WIDTH \<le> console_width te \<and> console_width te \<le> CONSOLE_MAX_WIDTH"
proof -
  let ?inner = "console_width te - 2" and ?rad = "sign te G_RAD"
  have inner: "46 \<le> ?inner" "?inner \<le> 72" "?inner + 2 = console_width te"
    using console_width_bounds [of te] by simp_all
  have ok: "row_ok (?rad @ '' REACTOR CORE '' @ ?rad)" "row_ok (?rad @ '' NUCLEAR C API SERVER '' @ ?rad)"
      "row_ok (version_text te info)" "row_ok ''RADIATION STATUS: NOMINAL''"
    by (rule row_ok_title row_ok_version [OF assms(3)] printable_row; simp add: printable_def)+
  have row: "visible_loop (row_line te t ?inner color) = Some (console_width te)" if "row_ok t" for t color
    using visible_row [of ?inner t te color] that inner by (simp add: row_ok_def)
  have "list_all (\<lambda>l. visible_loop l = Some (console_width te)) (box_lines te info)"
    unfolding box_lines_def Let_def list.pred_inject
    using visible_rule [of ?inner te] visible_blank [of ?inner te] visible_closing [of ?inner te] inner
    by (intro conjI row ok) simp_all
  moreover obtain st' where "console_print_banner te (Some info) st = Some st'" "cs_out st' = cs_out st @ banner_text te info"
    using printsE [OF prints_banner [OF assms(1,3)] assms(2)] by metis
  ultimately show ?thesis
    using console_width_bounds [of te] unfolding banner_text_def
    by (intro exI [of _ st'] exI [of _ "box_lines te info"])
      (simp add: console_visible_width_def box_lines_def Let_def)
qed

theorem banner_box_aligned_witness:
  "\<exists>st' lines rest. console_print_banner sample_tty (Some sample_info) console_start = Some st' \<and>
     cs_out st' = concat (map (\<lambda>l. l @ [LF]) lines) @ rest \<and> length lines = 11 \<and>
     list_all (\<lambda>l. console_visible_width (Some l) = Some 74) lines"
proof -
  have "console_width sample_tty = 74" by (simp add: console_width_def sample_tty_def)
  then show ?thesis
    using banner_box_aligned [OF samples_ok(1) samples_ok(3) samples_ok(4)] by (simp add: console_start_def)
qed

text \<open>C19: when \<open>stdout\<close> is redirected, the boot animation, the shutdown list and
  \<open>console_clear\<close> write nothing, and the banner is plain ASCII text: no control sequence
  and no byte outside of printable ASCII but newlines, if the configured strings have none.\<close>

theorem console_plain_when_redirected:
  assumes "\<not> console_is_tty te" and "order_ok te" and "console_ok te st" and "info_ok info" and "info_plain info"
  shows "console_print_boot te st = Some st \<and> console_print_shutdown te st = Some st \<and> console_clear te st = Some st \<and>
    (\<exists>st' t. console_print_banner te (Some info) st = Some st' \<and> cs_out st' = cs_out st @ t \<and>
       list_all (\<lambda>c. printable c \<or> c = LF) t)"
proof -
  obtain st' where "console_print_banner te (Some info) st = Some st'" "cs_out st' = cs_out st @ banner_text te info"
    using printsE [OF prints_banner [OF assms(2,4)] assms(3)] by metis
  moreover have "list_all plain_char (concat ts)" "list_all plain_char (concat (map (\<lambda>l. l @ [LF]) ts))"
    if "list_all (list_all plain_char) ts" for ts
    using that by (induction ts) (simp_all add: plain_char_simps)
  from this(2) [OF plain_box [OF assms(1,5)]] this(1) [OF plain_rest [OF assms(1,5)]]
  have "list_all plain_char (banner_text te info)" by (simp only: banner_text_def list_all_append)
  ultimately show ?thesis
    using assms(1) by (auto simp: console_print_boot_def console_print_shutdown_def console_clear_def plain_char_def [abs_def])
qed

theorem console_plain_when_redirected_witness:
  "\<exists>st' t. console_print_banner (sample_tty\<lparr>te_isatty := False\<rparr>) (Some sample_info) console_start = Some st' \<and>
     cs_out st' = t \<and> list_all (\<lambda>c. printable c \<or> c = LF) t"
proof -
  have "\<not> console_is_tty (sample_tty\<lparr>te_isatty := False\<rparr>)" by (simp add: console_is_tty_def)
  from console_plain_when_redirected [OF this samples_ok(2) samples_ok(3) samples_ok(4) samples_ok(5)]
  show ?thesis by (simp add: console_start_def)
qed

text \<open>A text that ends inside of a control sequence.\<close>

definition open_control :: "cstr \<Rightarrow> bool" where
  "open_control s \<longleftrightarrow> (\<exists>u v. s = u @ ESC # CHR ''['' # v \<and> \<not> list_ex isalpha v)"

lemma suffix_after: "u @ w = x @ m # rest \<Longrightarrow> m \<notin> set w \<Longrightarrow> \<exists>u'. rest = u' @ w"
  by (auto simp: append_eq_append_conv2 append_eq_Cons_conv Cons_eq_append_conv)

lemma open_control_append: "open_control rest \<Longrightarrow> open_control (x @ rest)"
  unfolding open_control_def by (metis append_assoc)

lemma open_control_after:
  assumes "isalpha m"
  shows "open_control (x @ m # rest) \<longleftrightarrow> open_control rest"
proof
  assume "open_control (x @ m # rest)"
  then obtain u v where uv: "u @ (ESC # CHR ''['' # v) = x @ m # rest" "\<not> list_ex isalpha v"
    by (auto simp: open_control_def)
  have "m \<notin> set (ESC # CHR ''['' # v)"
    using assms uv(2) by (auto simp: list_ex_iff isalpha_def isupper_def islower_def)
  from suffix_after [OF uv(1) this] obtain u' where "rest = u' @ ESC # CHR ''['' # v" by blast
  with uv(2) show "open_control rest" by (auto simp: open_control_def)
next
  assume "open_control rest"
  then show "open_control (x @ m # rest)" using open_control_append [of rest "x @ [m]"] by simp
qed

lemma open_control_Cons:
  "\<not> (c = ESC \<and> (\<exists>t. s = CHR ''['' # t)) \<Longrightarrow> open_control (c # s) \<longleftrightarrow> open_control s"
  unfolding open_control_def by (auto simp: Cons_eq_append_conv)

lemma visible_None: "visible_loop s = None \<longleftrightarrow> open_control s"
proof (induction s rule: visible_loop.induct)
  case (1 s)
  show ?case
  proof (cases s)
    case Nil
    then show ?thesis by (simp add: open_control_def)
  next
    case s: (Cons c cs)
    show ?thesis
    proof (cases "c = ESC \<and> (\<exists>t. cs = CHR ''['' # t)")
      case False
      then have "visible_loop s = map_option (\<lambda>w. if is_continuation c then w else w + 1) (visible_loop cs)"
        by (cases cs) (subst visible_loop.simps, auto simp: s is_escape_start_def)+
      with False 1(2) [OF s] show ?thesis by (cases cs) (auto simp: s open_control_Cons is_escape_start_def)
    next
      case True
      then obtain t where t: "s = ESC # CHR ''['' # t" "cs = CHR ''['' # t" using s by blast
      have br: "\<not> isalpha (CHR ''['')" by (simp add: isalpha_def isupper_def islower_def)
      show ?thesis
      proof (cases "dropWhile (\<lambda>x. \<not> isalpha x) cs")
        case Nil
        then have "\<not> list_ex isalpha t" using t br by (auto simp: list_ex_iff)
        then have "open_control s" using t unfolding open_control_def by (metis append_Nil)
        moreover have "visible_loop s = None"
          by (subst visible_loop.simps, simp only: s list.case Nil) (use True in \<open>auto simp: is_escape_start_def\<close>)
        ultimately show ?thesis by simp
      next
        case (Cons m rest)
        then have m: "isalpha m" using hd_dropWhile [of "\<lambda>x. \<not> isalpha x" cs] by simp
        have "cs = takeWhile (\<lambda>x. \<not> isalpha x) cs @ m # rest" using Cons by (metis takeWhile_dropWhile_id)
        then obtain x where x: "s = x @ m # rest" using s by (metis append_Cons)
        have "visible_loop s = visible_loop rest"
          by (subst visible_loop.simps, simp only: s list.case Cons) (use True in \<open>auto simp: is_escape_start_def\<close>)
        moreover have "visible_loop rest = None \<longleftrightarrow> open_control rest"
          using 1(1) [OF s _ Cons] True by (auto simp: is_escape_start_def)
        ultimately show ?thesis using open_control_after [OF m] x by simp
      qed
    qed
  qed
qed

text \<open>C40: \<open>console_visible_width\<close> reads beyond the terminator of its argument exactly
  when the text ends inside of a control sequence, that is, in an escape and a bracket with no
  letter after them; on a text without escapes it is the number of bytes that do not continue
  a UTF-8 sequence.\<close>

theorem console_visible_width_overrun:
  "(console_visible_width (Some s) = None \<longleftrightarrow>
      (\<exists>u v. s = u @ ESC # CHR ''['' # v \<and> \<not> list_ex isalpha v)) \<and>
   (if ESC \<in> set s then True
    else console_visible_width (Some s) = Some (length (filter (\<lambda>c. uchar c < 128 \<or> 192 \<le> uchar c) s)))"
proof -
  have "filter (\<lambda>c. \<not> is_continuation c) s = filter (\<lambda>c. uchar c < 128 \<or> 192 \<le> uchar c) s"
    by (rule filter_cong) (auto simp: is_continuation_iff)
  then show ?thesis
    by (auto simp: console_visible_width_def visible_None open_control_def cells_def)
qed

text \<open>A row of one letter and seventy glyphs of three bytes makes the truncation of
  \<open>draw_row\<close> write its terminator one byte beyond the array.\<close>

theorem draw_row_overflow:
  "draw_row sample_tty (CHR ''a'' # concat (replicate 70 [CHR 0xE2, CHR 0x94, CHR 0x80])) 72 ''dim'' console_start = None"
  by code_simp

text \<open>The boot animation looks at \<open>CI\<close> and \<open>CONSOLE_NO_ANIMATION\<close> but not at
  \<open>NO_COLOR\<close>: on a terminal it is printed, uncoloured, with its erasing control
  sequences.\<close>

theorem boot_animates_under_no_color:
  "\<exists>te st'. env_flag_set te ''NO_COLOR'' \<and> console_is_tty te \<and>
     console_print_boot te console_start = Some st' \<and> cs_out st' \<noteq> []"
proof -
  let ?te = "sample_tty\<lparr>te_getenv := (\<lambda>v. if v = ''NO_COLOR'' then Some ''1'' else None)\<rparr>"
  have "env_flag_set ?te ''NO_COLOR''" "console_is_tty ?te" "\<not> env_flag_set ?te ''CONSOLE_NO_ANIMATION''"
      "\<not> env_flag_set ?te ''CI''"
    by (simp_all add: env_flag_set_def console_is_tty_def sample_tty_def)
  moreover have "concat (boot_text te) \<noteq> []" for te by (simp add: boot_text_def Let_def)
  ultimately show ?thesis
    using boot_prints [OF samples_ok(3), of ?te] by (intro exI [of _ ?te]) (auto simp del: concat_eq_Nil_conv)
qed

end
