(* ===== verification/Log.thy ===== *)
theory Log
  imports Clib
begin

text \<open>
  The log lines of \<open>include/log.h\<close>.  The clock is an argument: hours, minutes and
  seconds as \<open>gmtime_r\<close> gives them, \<open>None\<close> if it fails; the result is what is
  written to \<open>stderr\<close>.
\<close>

abbreviation (input) LOG_MODULE_WIDTH :: nat where "LOG_MODULE_WIDTH \<equiv> 10"

text \<open>Two digits of \<open>strftime\<close>.\<close>

definition two_digits :: "nat \<Rightarrow> cstr" where
  "two_digits n = [digit_chr (n div 10 mod 10), digit_chr (n mod 10)]"

definition log_stamp :: "(nat \<times> nat \<times> nat) option \<Rightarrow> cstr" where
  "log_stamp parts =
     (case parts of
        Some (h, m, s) \<Rightarrow> two_digits h @ '':'' @ two_digits m @ '':'' @ two_digits s
      | None \<Rightarrow> snprintf_buf 16 ''00:00:00'')"

definition log_event :: "(nat \<times> nat \<times> nat) option \<Rightarrow> cstr \<Rightarrow> cstr \<Rightarrow> cstr \<Rightarrow> cstr option \<Rightarrow> cstr" where
  "log_event parts level module_name event detail =
     ''['' @ ljust 4 level @ ''] '' @ log_stamp parts @ ''  module='' @ ljust LOG_MODULE_WIDTH module_name @ '' '' @ event @ [LF] @
     (case detail of
        None \<Rightarrow> []
      | Some d \<Rightarrow> if d = [] then [] else ''         '' @ d @ [LF])"

definition LOG_INFO_D :: "(nat \<times> nat \<times> nat) option \<Rightarrow> cstr \<Rightarrow> cstr \<Rightarrow> cstr \<Rightarrow> cstr" where
  "LOG_INFO_D parts module_name event detail = log_event parts ''INFO'' module_name event (Some detail)"

end
