(* ===== verification/Api.thy ===== *)
theory Api
  imports Server_Core
begin

text \<open>
  The router and the handlers of \<open>src/api.c\<close>.  Every handler takes the connection
  and the store and returns the \<open>ApiError\<close> it reports, the connection with the
  response sent on it and the store it leaves.  The embedded page (\<open>frontend.h\<close>,
  generated by the build) is the parameter \<open>frontend_html\<close>; \<open>now\<close> is the
  value \<open>time\<close> returns.  The \<open>static\<close> response buffers are modelled as the
  handler's own: they are filled and sent by one call.
\<close>

type_synonym 'db handled = "ApiError \<times> conn \<times> 'db option"

section \<open>Helpers\<close>

definition api_require_json :: "HttpRequest option \<Rightarrow> bool \<Rightarrow> ApiError" where
  "api_require_json req body_required =
     (case req of
        None \<Rightarrow> API_ERR_BAD_REQUEST
      | Some rq \<Rightarrow>
          if body_required \<and> rq_content_length rq < 0 then API_ERR_LENGTH_REQUIRED
          else if body_required \<and> rq_body rq = None then API_ERR_BAD_REQUEST
          else if strstr (map tolower (snprintf_buf 128 (rq_content_type rq))) ''application/json'' = None
            then API_ERR_UNSUPPORTED_MEDIA
          else API_OK)"

definition send_json :: "int \<Rightarrow> cstr option \<Rightarrow> conn \<Rightarrow> bool \<times> conn" where
  "send_json status body c =
     http_respond status (Some ''application/json'') body (case body of None \<Rightarrow> 0 | Some b \<Rightarrow> length b) None c"

definition send_no_content :: "conn \<Rightarrow> bool \<times> conn" where
  "send_no_content c = http_respond 204 (Some ''application/json'') None 0 None c"

definition method_body :: "cstr \<Rightarrow> cstr" where
  "method_body allow = ''{'' @ jstr ''error'' ''method_not_allowed'' @ '','' @ jstr ''message'' (''use '' @ allow) @ ''}''"

definition send_method_not_allowed :: "cstr \<Rightarrow> conn \<Rightarrow> bool \<times> conn" where
  "send_method_not_allowed allow c =
     (if \<not> snprintf_fits 256 (method_body allow)
      then http_respond_error API_ERR_INTERNAL (Some ''encode overflow'') c
      else http_respond 405 (Some ''application/json'') (Some (method_body allow)) (length (method_body allow))
             (Some allow) c)"

definition parse_limit :: "cstr \<Rightarrow> ApiError + int" where
  "parse_limit query =
     (case http_query_get (Some query) (Some ''limit'') (Some 32) of
        QTruncated \<Rightarrow> Inl API_ERR_INVALID_QUERY
      | QAbsent \<Rightarrow> Inr 50
      | QFound text \<Rightarrow>
          (case strtol text of (val, rest, _) \<Rightarrow>
             if rest = text \<or> rest \<noteq> [] \<or> val \<le> 0 \<or> val > STORE_MAX_LIST
             then Inl API_ERR_INVALID_QUERY else Inr val))"

definition parse_offset :: "cstr \<Rightarrow> ApiError + int" where
  "parse_offset query =
     (case http_query_get (Some query) (Some ''offset'') (Some 32) of
        QTruncated \<Rightarrow> Inl API_ERR_INVALID_QUERY
      | QAbsent \<Rightarrow> Inr 0
      | QFound text \<Rightarrow>
          (case strtol text of (val, rest, _) \<Rightarrow>
             if rest = text \<or> rest \<noteq> [] \<or> val < 0 \<or> val > 1000000
             then Inl API_ERR_INVALID_QUERY else Inr val))"

definition parse_note_id :: "cstr \<Rightarrow> ApiError + int" where
  "parse_note_id path =
     (let pfx = ''/api/notes/''; base = length pfx
      in if \<not> strncmp_eq path pfx base \<or> drop base path = [] then Inl API_ERR_INVALID_ID
         else if strchr (drop base path) CHR ''/'' \<noteq> None then Inl API_ERR_NOT_FOUND
         else
           (case strtol (drop base path) of (val, rest, _) \<Rightarrow>
              if rest = drop base path \<or> rest \<noteq> [] \<or> val \<le> 0 then Inl API_ERR_INVALID_ID else Inr val))"

text \<open>The two ways a handler ends: the error is rendered and returned; or the result
  of the last send decides.\<close>

definition fail_with :: "ApiError \<Rightarrow> cstr \<Rightarrow> conn \<Rightarrow> 'db option \<Rightarrow> 'db handled" where
  "fail_with err detail c st = (err, snd (http_respond_error err (Some detail) c), st)"

definition finish :: "bool \<times> conn \<Rightarrow> 'db option \<Rightarrow> 'db handled" where
  "finish sent st = (if fst sent then API_OK else API_ERR_INTERNAL, snd sent, st)"

definition refuse_method :: "cstr \<Rightarrow> conn \<Rightarrow> 'db option \<Rightarrow> 'db handled" where
  "refuse_method allow c st = (API_ERR_METHOD_NOT_ALLOWED, snd (send_method_not_allowed allow c), st)"

section \<open>Health, metrics and echo\<close>

definition health_body :: "int \<Rightarrow> 'db Server option \<Rightarrow> cstr" where
  "health_body now server =
     ''{'' @ jstr ''status'' ''ok'' @ '','' @ jstr ''version'' SERVER_VERSION @ '','' @
     jnum ''uptime_s'' (show_int (server_uptime_s now server)) @ '','' @
     jstr ''auth'' (if server_auth_enabled server then ''protected'' else ''open'') @ ''}''"

definition handle_health :: "int \<Rightarrow> 'db Server option \<Rightarrow> conn \<Rightarrow> 'db option \<Rightarrow> 'db handled" where
  "handle_health now server c st =
     (if \<not> snprintf_fits 256 (health_body now server) then fail_with API_ERR_INTERNAL ''encode overflow'' c st
      else finish (send_json 200 (Some (health_body now server)) c) st)"

definition show_ulong :: "64 word \<Rightarrow> cstr" where
  "show_ulong w = show_nat (unat w)"

definition metrics_body :: "ServerStats \<Rightarrow> int \<Rightarrow> int \<Rightarrow> cstr" where
  "metrics_body stats kv_count note_count =
     ''{'' @ jnum ''connections_accepted'' (show_ulong (ss_accepted stats)) @ '','' @
     jnum ''connections_handled'' (show_ulong (ss_handled stats)) @ '','' @
     jnum ''connections_dropped_queue_full'' (show_ulong (ss_dropped stats)) @ '','' @
     jnum ''http_requests'' (show_ulong (ss_http_requests stats)) @ '','' @
     jnum ''http_errors'' (show_ulong (ss_http_errors stats)) @ '','' @
     jnum ''kv_count'' (show_int kv_count) @ '','' @ jnum ''notes_count'' (show_int note_count) @ ''}''"

text \<open>The router passes a server, never NULL, so that the counters are always loaded.\<close>

definition handle_metrics :: "'db sqlite3 \<Rightarrow> 'db Server \<Rightarrow> conn \<Rightarrow> 'db option \<Rightarrow> 'db handled" where
  "handle_metrics sq server c st =
     (case store_counts sq st of
        (Inl counted, st') \<Rightarrow> fail_with counted ''store count failed'' c st'
      | (Inr (kv_count, note_count), st') \<Rightarrow>
          (let body = metrics_body (the (server_stats (Some server))) kv_count note_count
           in if \<not> snprintf_fits 512 body then fail_with API_ERR_INTERNAL ''encode overflow'' c st'
              else finish (send_json 200 (Some body) c) st'))"

definition handle_echo :: "HttpRequest \<Rightarrow> conn \<Rightarrow> 'db option \<Rightarrow> 'db handled" where
  "handle_echo req c st =
     (let checked = api_require_json (Some req) True
      in if checked \<noteq> API_OK then
           fail_with checked (if checked = API_ERR_UNSUPPORTED_MEDIA then ''use application/json'' else ''body required'') c st
         else
           (case json_get_string (rq_body req) (Some ''data'') (Some HTTP_MAX_BODY_SIZE) of
              Inl parsed \<Rightarrow>
                fail_with parsed (if parsed = API_ERR_MISSING_FIELD then ''missing field: data'' else ''invalid JSON'') c st
            | Inr data \<Rightarrow>
                (case json_escape (Some (HTTP_MAX_BODY_SIZE + 128)) (Some data) of
                   None \<Rightarrow> fail_with API_ERR_INTERNAL ''encode overflow'' c st
                 | Some escaped \<Rightarrow>
                     (let body = ''{'' @ jstr ''data'' escaped @ ''}''
                      in if \<not> snprintf_fits (HTTP_MAX_BODY_SIZE + 256) body
                         then fail_with API_ERR_INTERNAL ''encode overflow'' c st
                         else finish (send_json 200 (Some body) c) st))))"

section \<open>Keys and values\<close>

definition handle_kv_put ::
  "'db sqlite3 \<Rightarrow> int \<Rightarrow> HttpRequest \<Rightarrow> cstr \<Rightarrow> conn \<Rightarrow> 'db option \<Rightarrow> 'db handled" where
  "handle_kv_put sq now req key c st =
     (let checked = api_require_json (Some req) True
      in if checked \<noteq> API_OK then
           fail_with checked (''body with {'' @ DQ # ''value'' @ DQ # ''} required as application/json'') c st
         else
           (case json_get_string (rq_body req) (Some ''value'') (Some (STORE_MAX_VALUE_LEN + 1)) of
              Inl parsed \<Rightarrow>
                fail_with parsed (if parsed = API_ERR_MISSING_FIELD then ''missing field: value'' else ''invalid JSON'') c st
            | Inr val \<Rightarrow>
                (case store_kv_put sq now st (Some key) (Some val) of (stored, st') \<Rightarrow>
                   if stored \<noteq> API_OK then
                     fail_with stored (if stored = API_ERR_INVALID_KEY then ''invalid key'' else ''store write failed'') c st'
                   else
                     (case (json_escape (Some (STORE_MAX_VALUE_LEN * 2 + 1)) (Some val),
                            json_escape (Some (STORE_MAX_KEY_LEN * 2 + 1)) (Some key)) of
                        (Some escaped, Some ekey) \<Rightarrow>
                          if \<not> snprintf_fits (STORE_MAX_VALUE_LEN * 2 + 512) (kv_item ekey escaped)
                          then fail_with API_ERR_INTERNAL ''encode overflow'' c st'
                          else finish (send_json 200 (Some (kv_item ekey escaped)) c) st'
                      | _ \<Rightarrow> fail_with API_ERR_INTERNAL ''encode overflow'' c st'))))"

definition handle_kv_get :: "'db sqlite3 \<Rightarrow> cstr \<Rightarrow> conn \<Rightarrow> 'db option \<Rightarrow> 'db handled" where
  "handle_kv_get sq key c st =
     (case store_kv_get sq st (Some key) (Some (STORE_MAX_VALUE_LEN + 1)) of
        (Inl got, st') \<Rightarrow>
          fail_with got (if got = API_ERR_NOT_FOUND then ''key not found'' else ''store read failed'') c st'
      | (Inr val, st') \<Rightarrow>
          (case (json_escape (Some (STORE_MAX_VALUE_LEN * 2 + 1)) (Some val),
                 json_escape (Some (STORE_MAX_KEY_LEN * 2 + 1)) (Some key)) of
             (Some escaped, Some ekey) \<Rightarrow>
               if \<not> snprintf_fits (STORE_MAX_VALUE_LEN * 2 + 512) (kv_item ekey escaped)
               then fail_with API_ERR_INTERNAL ''encode overflow'' c st'
               else finish (send_json 200 (Some (kv_item ekey escaped)) c) st'
           | _ \<Rightarrow> fail_with API_ERR_INTERNAL ''encode overflow'' c st'))"

definition handle_kv_del :: "'db sqlite3 \<Rightarrow> cstr \<Rightarrow> conn \<Rightarrow> 'db option \<Rightarrow> 'db handled" where
  "handle_kv_del sq key c st =
     (case store_kv_del sq st (Some key) of (deleted, st') \<Rightarrow>
        if deleted \<noteq> API_OK then
          fail_with deleted (if deleted = API_ERR_NOT_FOUND then ''key not found'' else ''store delete failed'') c st'
        else finish (send_no_content c) st')"

text \<open>\<open>http_query_get\<close> leaves the buffer as it was, empty, when the parameter is
  absent.\<close>

definition handle_kv_list :: "'db sqlite3 \<Rightarrow> HttpRequest \<Rightarrow> conn \<Rightarrow> 'db option \<Rightarrow> 'db handled" where
  "handle_kv_list sq req c st =
     (let found = http_query_get (Some (rq_query req)) (Some ''prefix'') (Some (STORE_MAX_KEY_LEN + 1));
          pfx = (case found of QFound p \<Rightarrow> p | _ \<Rightarrow> [])
      in if found = QTruncated then fail_with API_ERR_INVALID_QUERY ''prefix too long'' c st
         else if found \<noteq> QAbsent \<and> store_validate_key (Some pfx) \<noteq> API_OK \<and> pfx \<noteq> []
           then fail_with API_ERR_INVALID_QUERY ''invalid prefix charset'' c st
         else
           (case parse_limit (rq_query req) of
              Inl parsed \<Rightarrow> fail_with parsed ''limit must be 1..100'' c st
            | Inr limit \<Rightarrow>
                (case store_kv_list sq st (Some pfx) limit (Some HTTP_MAX_BODY_SIZE) of
                   (Inl listed, st') \<Rightarrow> fail_with listed ''store list failed'' c st'
                 | (Inr items, st') \<Rightarrow>
                     (let body = ''{'' @ jnum ''items'' items @ ''}''
                      in if \<not> snprintf_fits HTTP_MAX_BODY_SIZE body
                         then fail_with API_ERR_INTERNAL ''encode overflow'' c st'
                         else finish (send_json 200 (Some body) c) st'))))"

section \<open>Notes\<close>

definition note_body_detail :: cstr where
  "note_body_detail = ''body with {'' @ DQ # ''title'' @ DQ # '','' @ DQ # ''body'' @ DQ # ''} required''"

definition handle_note_create ::
  "'db sqlite3 \<Rightarrow> int \<Rightarrow> HttpRequest \<Rightarrow> conn \<Rightarrow> 'db option \<Rightarrow> 'db handled" where
  "handle_note_create sq now req c st =
     (let checked = api_require_json (Some req) True
      in if checked \<noteq> API_OK then fail_with checked note_body_detail c st
         else
           (case json_get_string (rq_body req) (Some ''title'') (Some (STORE_MAX_TITLE_LEN + 1)) of
              Inl parsed \<Rightarrow>
                fail_with parsed (if parsed = API_ERR_MISSING_FIELD then ''missing field: title'' else ''invalid JSON'') c st
            | Inr title \<Rightarrow>
           (case json_get_string (rq_body req) (Some ''body'') (Some (STORE_MAX_BODY_LEN + 1)) of
              Inl parsed \<Rightarrow>
                fail_with parsed (if parsed = API_ERR_MISSING_FIELD then ''missing field: body'' else ''invalid JSON'') c st
            | Inr note_body \<Rightarrow>
                (case store_note_create sq now st (Some title) (Some note_body) of
                   (Inl created, st') \<Rightarrow>
                     fail_with created
                       (if created = API_ERR_PAYLOAD_TOO_LARGE then ''title 1..200, body 0..8192''
                        else if created = API_ERR_BAD_REQUEST then ''title must be 1..200 chars''
                        else ''store write failed'') c st'
                 | (Inr nid, st') \<Rightarrow>
                     (case store_note_get sq st' nid (Some (STORE_MAX_BODY_LEN * 2 + 1024)) of
                        (Inl got, st'') \<Rightarrow> fail_with got ''created but re-read failed'' c st''
                      | (Inr created_json, st'') \<Rightarrow>
                          finish (http_respond 201 (Some ''application/json'') (Some created_json)
                            (length created_json) None c) st'')))))"

definition handle_note_list :: "'db sqlite3 \<Rightarrow> HttpRequest \<Rightarrow> conn \<Rightarrow> 'db option \<Rightarrow> 'db handled" where
  "handle_note_list sq req c st =
     (case (parse_limit (rq_query req), parse_offset (rq_query req)) of
        (Inr limit, Inr offset) \<Rightarrow>
          (case store_note_list sq st limit offset (Some HTTP_MAX_BODY_SIZE) (Some 0) of
             (Inl listed, _, st') \<Rightarrow> fail_with listed ''store list failed'' c st'
           | (Inr body, _, st') \<Rightarrow> finish (send_json 200 (Some body) c) st')
      | _ \<Rightarrow> fail_with API_ERR_INVALID_QUERY ''limit 1..100, offset >= 0'' c st)"

definition handle_note_get :: "'db sqlite3 \<Rightarrow> int \<Rightarrow> conn \<Rightarrow> 'db option \<Rightarrow> 'db handled" where
  "handle_note_get sq nid c st =
     (case store_note_get sq st nid (Some (STORE_MAX_BODY_LEN * 2 + 1024)) of
        (Inl got, st') \<Rightarrow> fail_with got (if got = API_ERR_NOT_FOUND then ''note not found'' else ''invalid id'') c st'
      | (Inr body, st') \<Rightarrow> finish (send_json 200 (Some body) c) st')"

definition handle_note_update ::
  "'db sqlite3 \<Rightarrow> int \<Rightarrow> HttpRequest \<Rightarrow> int \<Rightarrow> conn \<Rightarrow> 'db option \<Rightarrow> 'db handled" where
  "handle_note_update sq now req nid c st =
     (let checked = api_require_json (Some req) True
      in if checked \<noteq> API_OK then fail_with checked note_body_detail c st
         else
           (case (json_get_string (rq_body req) (Some ''title'') (Some (STORE_MAX_TITLE_LEN + 1)),
                  json_get_string (rq_body req) (Some ''body'') (Some (STORE_MAX_BODY_LEN + 1))) of
              (Inr title, Inr note_body) \<Rightarrow>
                (case store_note_update sq now st nid (Some title) (Some note_body) of (updated, st') \<Rightarrow>
                   if updated \<noteq> API_OK then
                     fail_with updated (if updated = API_ERR_NOT_FOUND then ''note not found'' else ''invalid title/body'') c st'
                   else handle_note_get sq nid c st')
            | _ \<Rightarrow> fail_with API_ERR_BAD_REQUEST ''missing field: title/body'' c st))"

definition handle_note_del :: "'db sqlite3 \<Rightarrow> int \<Rightarrow> conn \<Rightarrow> 'db option \<Rightarrow> 'db handled" where
  "handle_note_del sq nid c st =
     (case store_note_del sq st nid of (deleted, st') \<Rightarrow>
        if deleted \<noteq> API_OK then
          fail_with deleted (if deleted = API_ERR_NOT_FOUND then ''note not found'' else ''invalid id'') c st'
        else finish (send_no_content c) st')"

section \<open>The router\<close>

definition dispatch_kv :: "'db sqlite3 \<Rightarrow> int \<Rightarrow> HttpRequest \<Rightarrow> conn \<Rightarrow> 'db option \<Rightarrow> 'db handled" where
  "dispatch_kv sq now req c st =
     (let pfx = ''/api/kv/''; key = drop (length pfx) (rq_path req)
      in if rq_path req = ''/api/kv'' \<or> rq_path req = ''/api/kv/'' then
           (if rq_method req \<noteq> HTTP_GET then refuse_method ''GET'' c st else handle_kv_list sq req c st)
         else if \<not> strncmp_eq (rq_path req) pfx (length pfx) then fail_with API_ERR_NOT_FOUND ''unknown route'' c st
         else if strchr key CHR ''/'' \<noteq> None \<or> store_validate_key (Some key) \<noteq> API_OK then
           fail_with API_ERR_INVALID_KEY ''key must match [A-Za-z0-9._-]{1,128}'' c st
         else
           (case rq_method req of
              HTTP_GET \<Rightarrow> handle_kv_get sq key c st
            | HTTP_PUT \<Rightarrow> handle_kv_put sq now req key c st
            | HTTP_DELETE \<Rightarrow> handle_kv_del sq key c st
            | _ \<Rightarrow> refuse_method ''GET, PUT, DELETE'' c st))"

definition dispatch_notes :: "'db sqlite3 \<Rightarrow> int \<Rightarrow> HttpRequest \<Rightarrow> conn \<Rightarrow> 'db option \<Rightarrow> 'db handled" where
  "dispatch_notes sq now req c st =
     (if rq_path req = ''/api/notes'' \<or> rq_path req = ''/api/notes/'' then
        (if rq_method req = HTTP_POST then handle_note_create sq now req c st
         else if rq_method req = HTTP_GET then handle_note_list sq req c st
         else refuse_method ''GET, POST'' c st)
      else
        (case parse_note_id (rq_path req) of
           Inl parsed \<Rightarrow>
             if parsed = API_ERR_NOT_FOUND then fail_with parsed ''unknown route'' c st
             else fail_with parsed ''id must be a positive integer'' c st
         | Inr nid \<Rightarrow>
             (case rq_method req of
                HTTP_GET \<Rightarrow> handle_note_get sq nid c st
              | HTTP_PUT \<Rightarrow> handle_note_update sq now req nid c st
              | HTTP_DELETE \<Rightarrow> handle_note_del sq nid c st
              | _ \<Rightarrow> refuse_method ''GET, PUT, DELETE'' c st)))"

definition handle_root :: "bytes \<Rightarrow> conn \<Rightarrow> 'db option \<Rightarrow> 'db handled" where
  "handle_root frontend_html c st =
     finish (http_respond 200 (Some ''text/html'') (Some frontend_html) (length frontend_html) None c) st"

definition api_dispatch ::
  "'db sqlite3 \<Rightarrow> bytes \<Rightarrow> int \<Rightarrow> HttpRequest option \<Rightarrow> 'db Server option \<Rightarrow> conn \<Rightarrow> 'db option \<Rightarrow> 'db handled" where
  "api_dispatch sq frontend_html now req server c st =
     (case (req, st, server) of
        (Some rq, Some _, Some sv) \<Rightarrow>
          if rq_path rq = ''/'' \<or> rq_path rq = ''/index.html'' then
            (if rq_method rq \<noteq> HTTP_GET then refuse_method ''GET'' c st else handle_root frontend_html c st)
          else
            (let auth = (if rq_method rq \<noteq> HTTP_GET \<and> strncmp_eq (rq_path rq) ''/api/'' 5
                         then server_auth_check server req else API_OK)
             in if auth \<noteq> API_OK then
                  fail_with auth (if auth = API_ERR_UNAUTHORIZED then ''missing X-API-Key header'' else ''invalid API key'') c st
                else if rq_path rq = ''/health'' then
                  (if rq_method rq \<noteq> HTTP_GET then refuse_method ''GET'' c st else handle_health now server c st)
                else if rq_path rq = ''/metrics'' then
                  (if rq_method rq \<noteq> HTTP_GET then refuse_method ''GET'' c st else handle_metrics sq sv c st)
                else if rq_path rq = ''/api/echo'' then
                  (if rq_method rq \<noteq> HTTP_POST then refuse_method ''POST'' c st else handle_echo rq c st)
                else if strncmp_eq (rq_path rq) ''/api/kv'' 7 then dispatch_kv sq now rq c st
                else if strncmp_eq (rq_path rq) ''/api/notes'' 10 then dispatch_notes sq now rq c st
                else fail_with API_ERR_NOT_FOUND ''unknown route'' c st)
      | _ \<Rightarrow> fail_with API_ERR_INTERNAL ''missing context'' c st)"

end
