(* ===== verification/Server.thy ===== *)
theory Server
  imports Api "HOL-Library.Multiset"
begin

text \<open>
  The threads of \<open>src/server.c\<close>: the handler of one connection, the listener, and
  \<open>server_run\<close> with its acceptor and its workers as a transition system.  Each
  thread has a program counter; one event is one action of one thread on the shared
  state, with the outcome of the system call it makes, and a run is any interleaving
  of such events, \<open>server_stop\<close> by another thread included.  Critical sections
  of the queue and atomic counter updates are single events; a worker that waits on the
  condition variable of the queue is asleep there and makes no move until it is woken.  The
  work of \<open>handle_client\<close> is one event of its worker.  A signal handler that
  interrupts its own thread while that thread holds the mutex of the queue is outside the
  model: there \<open>server_stop\<close> would block on a mutex its thread already holds.
\<close>

section \<open>One connection\<close>

text \<open>The name of the peer for the log; \<open>ip\<close> is the result of \<open>inet_ntop\<close>.\<close>

definition format_peer :: "cstr option \<Rightarrow> 16 word \<Rightarrow> nat \<Rightarrow> cstr" where
  "format_peer ip sin_port out_len =
     (case ip of
        None \<Rightarrow> snprintf_buf out_len ''unknown''
      | Some t \<Rightarrow> snprintf_buf out_len (t @ '':'' @ show_nat (unat sin_port)))"

abbreviation (input) SERVER_RECV_TIMEOUT_MS :: int where "SERVER_RECV_TIMEOUT_MS \<equiv> 5000"
abbreviation (input) SERVER_SEND_TIMEOUT_MS :: int where "SERVER_SEND_TIMEOUT_MS \<equiv> 5000"

datatype sockopt = SO_RCVTIMEO | SO_SNDTIMEO

text \<open>\<open>set_timeouts\<close>, given whether \<open>setsockopt\<close> accepts an option with seconds and
  microseconds; true stands for the return value 0.\<close>

definition set_timeouts :: "(sockopt \<Rightarrow> int \<times> int \<Rightarrow> bool) \<Rightarrow> bool" where
  "set_timeouts setsockopt =
     (if \<not> setsockopt SO_RCVTIMEO (SERVER_RECV_TIMEOUT_MS div 1000, SERVER_RECV_TIMEOUT_MS mod 1000 * 1000) then False
      else if \<not> setsockopt SO_SNDTIMEO (SERVER_SEND_TIMEOUT_MS div 1000, SERVER_SEND_TIMEOUT_MS mod 1000 * 1000) then False
      else True)"

definition count_errors :: "ServerStats \<Rightarrow> ServerStats" where
  "count_errors ss = ss\<lparr>ss_errors := stats_bump (ss_errors ss), ss_http_errors := stats_bump (ss_http_errors ss)\<rparr>"

definition count_request :: "ServerStats \<Rightarrow> ServerStats" where
  "count_request ss = ss\<lparr>ss_http_requests := stats_bump (ss_http_requests ss)\<rparr>"

definition count_http_error :: "ServerStats \<Rightarrow> ServerStats" where
  "count_http_error ss = ss\<lparr>ss_http_errors := stats_bump (ss_http_errors ss)\<rparr>"

definition with_stats :: "(ServerStats \<Rightarrow> ServerStats) \<Rightarrow> 'db Server \<Rightarrow> 'db Server" where
  "with_stats f sv = sv\<lparr>sv_stats := f (sv_stats sv)\<rparr>"

text \<open>\<open>timeouts_ok\<close> is the outcome of \<open>set_timeouts\<close>, \<open>mem_ok\<close> that of
  the allocation in the request parser.\<close>

definition handle_client ::
  "'db sqlite3 \<Rightarrow> bytes \<Rightarrow> int \<Rightarrow> bool \<Rightarrow> bool \<Rightarrow> 'db Server \<Rightarrow> conn \<Rightarrow> 'db Server \<times> conn" where
  "handle_client sq frontend_html now timeouts_ok mem_ok server c =
     (if \<not> timeouts_ok then (with_stats count_errors server, c)
      else
        (case http_read_request mem_ok (Some HTTP_MAX_HEADERS_SIZE) (Some HTTP_MAX_BODY_SIZE) (cn_in c) of
           (Inl read_result, es) \<Rightarrow>
             (with_stats count_errors server,
              snd (http_respond_error read_result (Some (api_error_code read_result)) (c\<lparr>cn_in := es\<rparr>)))
         | (Inr req, es) \<Rightarrow>
             (let server1 = with_stats count_request server
              in case api_dispatch sq frontend_html now (Some req) (Some server1) (c\<lparr>cn_in := es\<rparr>) (sv_store server1) of
                   (dispatch, c', st') \<Rightarrow>
                     (let server2 = server1\<lparr>sv_store := st'\<rparr>
                      in (if dispatch \<noteq> API_OK then with_stats count_http_error server2 else server2, c')))))"

section \<open>The listener\<close>

text \<open>The outcomes of the system calls: the descriptor of \<open>socket\<close> (negative on
  failure) and whether each later call succeeds.\<close>

record listen_env =
  le_socket :: int
  le_reuse :: bool
  le_inet_pton :: bool
  le_bind :: bool
  le_listen :: bool

definition any_address :: "cstr option \<Rightarrow> bool" where
  "any_address bind_ip \<longleftrightarrow> bind_ip = None \<or> bind_ip = Some [] \<or> bind_ip = Some ''0.0.0.0''"

text \<open>The result and the descriptors closed on the way.\<close>

definition create_listener :: "listen_env \<Rightarrow> ServerConfig \<Rightarrow> int \<times> int list" where
  "create_listener env config =
     (let fd = le_socket env
      in if fd < 0 then (-1, [])
         else if \<not> le_reuse env then (-1, [fd])
         else if \<not> any_address (cf_bind_ip config) \<and> \<not> le_inet_pton env then (-1, [fd])
         else if \<not> le_bind env then (-1, [fd])
         else if \<not> le_listen env then (-1, [fd])
         else (fd, []))"

section \<open>The threads\<close>

datatype acceptor = AcTop | AcPoll | AcAccept | AcPush int | AcDrain | AcJoin | AcDone

datatype worker = WkPop | WkBusy int | WkServed int | WkCount | WkDone

record 'db world =
  w_server :: "'db Server"
  w_acceptor :: acceptor
  w_workers :: "worker list"
  w_stopping :: bool
  w_conns :: "int \<Rightarrow> conn"
  w_open :: "int list"
  w_accepted :: "int list"
  w_closed :: "int list"

text \<open>\<open>server_run\<close> up to its accept loop: \<open>created\<close> are the outcomes of the
  \<open>pthread_create\<close> calls.  On a failure the server is stopped, the workers that
  started are joined (the queue is closed and empty) and the listener is closed.\<close>

definition server_run_start ::
  "listen_env \<Rightarrow> bool \<Rightarrow> bool list \<Rightarrow> 'db Server option \<Rightarrow> 'db Server option + 'db world" where
  "server_run_start env calloc_ok created server =
     (case server of
        None \<Rightarrow> Inl None
      | Some sv0 \<Rightarrow>
          (case create_listener env (sv_config sv0) of (fd, _) \<Rightarrow>
             if fd < 0 then Inl (Some (sv0\<lparr>sv_listen_fd := fd\<rparr>))
             else if \<not> calloc_ok then Inl (Some (sv0\<lparr>sv_listen_fd := -1\<rparr>))
             else
               (let n = nat (cf_thread_count (sv_config sv0));
                    sv = sv0\<lparr>sv_listen_fd := fd, sv_worker_count := cf_thread_count (sv_config sv0)\<rparr>
                in if False \<in> set (take n created)
                   then Inl (map_option (\<lambda>s. s\<lparr>sv_listen_fd := -1\<rparr>) (server_stop (Some sv)))
                   else Inr \<lparr>w_server = sv, w_acceptor = AcTop, w_workers = replicate n WkPop, w_stopping = False,
                             w_conns = (\<lambda>_. \<lparr>cn_in = [], cn_send = [], cn_out = []\<rparr>), w_open = [],
                             w_accepted = [], w_closed = []\<rparr>)))"

text \<open>Events.  The acceptor: the loop test, the outcomes of \<open>poll\<close> and
  \<open>accept\<close> (with the connection behind the new descriptor), the push (with the
  scheduler's choice of the worker its signal wakes), the drain and the join.  Worker
  \<open>i\<close>: one test of the condition of \<open>queue_pop\<close> with what follows under the
  mutex (taking a descriptor, ending, or falling asleep), a wake-up without a signal, which
  \<open>pthread_cond_wait\<close> permits, serving, closing, counting.  Another thread, or the
  signal handler of a thread that is outside the critical sections of the queue: the two
  halves of \<open>server_stop\<close>.\<close>

datatype event =
    EvTop
  | EvPollIntr | EvPollFail | EvPollTimeout | EvPollReady
  | EvAcceptAgain | EvAcceptFail | EvAccept int conn
  | EvPush nat
  | EvDrain
  | EvJoin
  | EvPop nat
  | EvWake nat
  | EvServe nat int bool bool
  | EvClose nat
  | EvCount nat
  | EvStopFlag
  | EvStopClose

definition count_accepted :: "ServerStats \<Rightarrow> ServerStats" where
  "count_accepted ss = ss\<lparr>ss_accepted := stats_bump (ss_accepted ss)\<rparr>"

definition count_dropped :: "ServerStats \<Rightarrow> ServerStats" where
  "count_dropped ss = ss\<lparr>ss_dropped := stats_bump (ss_dropped ss)\<rparr>"

definition count_handled :: "ServerStats \<Rightarrow> ServerStats" where
  "count_handled ss = ss\<lparr>ss_handled := stats_bump (ss_handled ss)\<rparr>"

definition count_error :: "ServerStats \<Rightarrow> ServerStats" where
  "count_error ss = ss\<lparr>ss_errors := stats_bump (ss_errors ss)\<rparr>"

text \<open>\<open>close\<close> of a client descriptor.\<close>

definition close_fd :: "int \<Rightarrow> 'db world \<Rightarrow> 'db world" where
  "close_fd fd w = w\<lparr>w_open := remove1 fd (w_open w), w_closed := w_closed w @ [fd]\<rparr>"

definition worker_at :: "'db world \<Rightarrow> nat \<Rightarrow> worker option" where
  "worker_at w i = (if i < length (w_workers w) then Some (w_workers w ! i) else None)"

definition set_worker :: "nat \<Rightarrow> worker \<Rightarrow> 'db world \<Rightarrow> 'db world" where
  "set_worker i k w = w\<lparr>w_workers := (w_workers w)[i := k]\<rparr>"

text \<open>The acceptor thread: the loop of \<open>server_run\<close> and what follows it.\<close>

fun acceptor_step :: "event \<Rightarrow> 'db world \<Rightarrow> 'db world option" where
  "acceptor_step EvTop w =
     (if w_acceptor w = AcTop
      then Some (w\<lparr>w_acceptor := if sv_stop_requested (w_server w) then AcDrain else AcPoll\<rparr>) else None)"
| "acceptor_step EvPollIntr w = (if w_acceptor w = AcPoll then Some (w\<lparr>w_acceptor := AcTop\<rparr>) else None)"
| "acceptor_step EvPollFail w =
     (if w_acceptor w = AcPoll
      then Some (w\<lparr>w_acceptor := AcDrain, w_server := with_stats count_error (w_server w)\<rparr>) else None)"
| "acceptor_step EvPollTimeout w = (if w_acceptor w = AcPoll then Some (w\<lparr>w_acceptor := AcTop\<rparr>) else None)"
| "acceptor_step EvPollReady w = (if w_acceptor w = AcPoll then Some (w\<lparr>w_acceptor := AcAccept\<rparr>) else None)"
| "acceptor_step EvAcceptAgain w = (if w_acceptor w = AcAccept then Some (w\<lparr>w_acceptor := AcTop\<rparr>) else None)"
| "acceptor_step EvAcceptFail w =
     (if w_acceptor w = AcAccept then
        (if sv_stop_requested (w_server w) then Some (w\<lparr>w_acceptor := AcDrain\<rparr>)
         else Some (w\<lparr>w_acceptor := AcTop, w_server := with_stats count_error (w_server w)\<rparr>))
      else None)"
| "acceptor_step (EvAccept fd c) w =
     (if w_acceptor w = AcAccept \<and> 0 \<le> fd \<and> fd \<notin> set (w_open w) then
        Some (w\<lparr>w_acceptor := AcPush fd, w_server := with_stats count_accepted (w_server w),
                w_open := fd # w_open w, w_accepted := w_accepted w @ [fd], w_conns := (w_conns w)(fd := c)\<rparr>)
      else None)"
| "acceptor_step (EvPush chosen) w =
     (case w_acceptor w of
        AcPush fd \<Rightarrow>
          (case queue_try_push chosen (sv_queue (w_server w)) fd of
             (True, q) \<Rightarrow> Some (w\<lparr>w_acceptor := AcTop, w_server := (w_server w)\<lparr>sv_queue := q\<rparr>\<rparr>)
           | (False, q) \<Rightarrow>
               Some (close_fd fd (w\<lparr>w_acceptor := AcTop,
                 w_server := with_stats count_dropped ((w_server w)\<lparr>sv_queue := q\<rparr>)\<rparr>)))
      | _ \<Rightarrow> None)"
| "acceptor_step EvDrain w =
     (if w_acceptor w = AcDrain
      then Some (w\<lparr>w_acceptor := AcJoin, w_server := (w_server w)\<lparr>sv_queue := queue_close (sv_queue (w_server w))\<rparr>\<rparr>)
      else None)"
| "acceptor_step EvJoin w =
     (if w_acceptor w = AcJoin \<and> list_all (\<lambda>k. k = WkDone) (w_workers w)
      then Some (w\<lparr>w_acceptor := AcDone, w_server := (w_server w)\<lparr>sv_listen_fd := -1\<rparr>\<rparr>) else None)"
| "acceptor_step _ w = None"

text \<open>\<open>worker_main\<close>.  A worker asleep in \<open>pthread_cond_wait\<close> cannot test the condition of
  its loop; it can again once a signal, a broadcast or a spurious wake-up took it from the
  condition variable.\<close>

definition wake_thread :: "nat \<Rightarrow> ConnQueue \<Rightarrow> ConnQueue" where
  "wake_thread i q = q\<lparr>q_not_empty := remove1 i (q_not_empty q)\<rparr>"

fun worker_step :: "'db sqlite3 \<Rightarrow> bytes \<Rightarrow> event \<Rightarrow> 'db world \<Rightarrow> 'db world option" where
  "worker_step sq html (EvPop i) w =
     (if worker_at w i = Some WkPop \<and> i \<notin> set (q_not_empty (sv_queue (w_server w))) then
        (case queue_pop i (sv_queue (w_server w)) of
           (PopWait, q) \<Rightarrow> Some (w\<lparr>w_server := (w_server w)\<lparr>sv_queue := q\<rparr>\<rparr>)
         | (PopClosed, q) \<Rightarrow> Some (set_worker i WkDone (w\<lparr>w_server := (w_server w)\<lparr>sv_queue := q\<rparr>\<rparr>))
         | (PopFd fd, q) \<Rightarrow>
             Some (set_worker i (if fd < 0 then WkDone else WkBusy fd) (w\<lparr>w_server := (w_server w)\<lparr>sv_queue := q\<rparr>\<rparr>)))
      else None)"
| "worker_step sq html (EvWake i) w =
     (if i \<in> set (q_not_empty (sv_queue (w_server w)))
      then Some (w\<lparr>w_server := (w_server w)\<lparr>sv_queue := wake_thread i (sv_queue (w_server w))\<rparr>\<rparr>) else None)"
| "worker_step sq html (EvServe i now timeouts_ok mem_ok) w =
     (case worker_at w i of
        Some (WkBusy fd) \<Rightarrow>
          (case handle_client sq html now timeouts_ok mem_ok (w_server w) (w_conns w fd) of (sv, c) \<Rightarrow>
             Some (set_worker i (WkServed fd) (w\<lparr>w_server := sv, w_conns := (w_conns w)(fd := c)\<rparr>)))
      | _ \<Rightarrow> None)"
| "worker_step sq html (EvClose i) w =
     (case worker_at w i of
        Some (WkServed fd) \<Rightarrow> Some (close_fd fd (set_worker i WkCount w))
      | _ \<Rightarrow> None)"
| "worker_step sq html (EvCount i) w =
     (if worker_at w i = Some WkCount
      then Some (set_worker i WkPop (w\<lparr>w_server := with_stats count_handled (w_server w)\<rparr>)) else None)"
| "worker_step sq html _ w = None"

text \<open>\<open>server_stop\<close> in its two actions.\<close>

fun stop_step :: "event \<Rightarrow> 'db world \<Rightarrow> 'db world option" where
  "stop_step EvStopFlag w = Some (w\<lparr>w_stopping := True, w_server := (w_server w)\<lparr>sv_stop_requested := True\<rparr>\<rparr>)"
| "stop_step EvStopClose w =
     (if w_stopping w
      then Some (w\<lparr>w_stopping := False, w_server := (w_server w)\<lparr>sv_queue := queue_close (sv_queue (w_server w))\<rparr>\<rparr>)
      else None)"
| "stop_step _ w = None"

definition server_step :: "'db sqlite3 \<Rightarrow> bytes \<Rightarrow> event \<Rightarrow> 'db world \<Rightarrow> 'db world option" where
  "server_step sq html ev w =
     (case acceptor_step ev w of
        Some w' \<Rightarrow> Some w'
      | None \<Rightarrow> (case worker_step sq html ev w of Some w' \<Rightarrow> Some w' | None \<Rightarrow> stop_step ev w))"

text \<open>The runs.\<close>

inductive server_runs :: "'db sqlite3 \<Rightarrow> bytes \<Rightarrow> 'db world \<Rightarrow> event list \<Rightarrow> 'db world \<Rightarrow> bool"
  for sq html w0 where
  runs_start: "server_runs sq html w0 [] w0"
| runs_step: "server_runs sq html w0 evs w \<Longrightarrow> server_step sq html ev w = Some w' \<Longrightarrow>
    server_runs sq html w0 (evs @ [ev]) w'"

inductive_cases server_runs_snocE: "server_runs sq html w0 (evs @ [ev]) w'"
inductive_simps server_runs_Nil: "server_runs sq html w0 [] w"

end
