(* ===== verification/Store_Laws.thy ===== *)
theory Store_Laws
  imports Store "HOL-Library.AList"
begin

text \<open>
  What the store relies on of SQLite, as the locale \<open>sqlite_laws\<close>, and what it
  then promises.  The tables are seen through \<open>view\<close>; \<open>up\<close> marks the states
  of the database in which no call fails (no full disk, no I/O error, no lock that
  outlives the busy timeout).  The laws are SQLite's documented behaviour for the
  statement texts of the source and for nothing else: a statement that does not
  reach \<open>SQLITE_DONE\<close> changes nothing, an \<open>AUTOINCREMENT\<close> id is larger than
  every id ever given out, \<open>LIKE\<close> ignores ASCII case and knows \<open>%\<close>,
  \<open>_\<close> and the escape character.

  The specification of the operations is \<open>call_spec\<close>: reply and new tables of
  each call.  The lemmas of the locale show that every operation meets it, or returns
  an internal error and leaves the tables alone, and what follows for any sequence of
  calls.  The locale's instance is in the theory \<open>Store_Engine\<close>.
\<close>

section \<open>The tables\<close>

record note_row =
  nr_title :: bytes
  nr_body :: bytes
  nr_created :: int
  nr_updated :: int

record tables =
  kv_tab :: "cstr \<rightharpoonup> cstr \<times> int"
  note_tab :: "int \<rightharpoonup> note_row"
  note_seq :: int

text \<open>\<open>x LIKE pattern ESCAPE '\'\<close> on ASCII text.\<close>

fun like_match :: "cstr \<Rightarrow> cstr \<Rightarrow> bool" where
  "like_match [] s \<longleftrightarrow> s = []"
| "like_match (p # ps) [] \<longleftrightarrow> p = CHR ''%'' \<and> like_match ps []"
| "like_match (p # ps) (c # s) \<longleftrightarrow>
     (if p = CHR ''%'' then like_match ps (c # s) \<or> like_match (p # ps) s
      else if p = CHR ''_'' then like_match ps s
      else if p = BSLASH then
        (case ps of [] \<Rightarrow> False | q # qs \<Rightarrow> tolower q = tolower c \<and> like_match qs s)
      else tolower p = tolower c \<and> like_match ps s)"

definition is_ascii :: "cstr \<Rightarrow> bool" where
  "is_ascii s \<longleftrightarrow> list_all (\<lambda>c. uchar c < 128) s"

text \<open>The rows the \<open>SELECT\<close> statements stand for.\<close>

definition kv_get_answer :: "tables \<Rightarrow> cstr \<Rightarrow> sqlval list list" where
  "kv_get_answer tb k = (case kv_tab tb k of None \<Rightarrow> [] | Some (v, _) \<Rightarrow> [ [SText v] ])"

definition kv_row :: "tables \<Rightarrow> cstr \<Rightarrow> sqlval list" where
  "kv_row tb k = [SText k, SText (fst (the (kv_tab tb k)))]"

definition matching_keys :: "tables \<Rightarrow> cstr \<Rightarrow> cstr list" where
  "matching_keys tb pat = filter (like_match pat) (sorted_list_of_set (dom (kv_tab tb)))"

definition kv_list_answer :: "tables \<Rightarrow> cstr \<Rightarrow> int \<Rightarrow> sqlval list list" where
  "kv_list_answer tb pat n = map (kv_row tb) (take (nat n) (matching_keys tb pat))"

definition note_cols :: "tables \<Rightarrow> int \<Rightarrow> sqlval list" where
  "note_cols tb i =
     (let n = the (note_tab tb i)
      in [SInt i, SText (nr_title n), SText (nr_body n), SInt (nr_created n), SInt (nr_updated n)])"

definition note_get_answer :: "tables \<Rightarrow> int \<Rightarrow> sqlval list list" where
  "note_get_answer tb i = (if note_tab tb i = None then [] else [note_cols tb i])"

definition note_ids :: "tables \<Rightarrow> int list" where
  "note_ids tb = sorted_list_of_set (dom (note_tab tb))"

definition note_list_answer :: "tables \<Rightarrow> int \<Rightarrow> int \<Rightarrow> sqlval list list" where
  "note_list_answer tb n off = map (note_cols tb) (take (nat n) (drop (nat off) (note_ids tb)))"

definition kv_count_answer :: "tables \<Rightarrow> sqlval list list" where
  "kv_count_answer tb = [ [SInt (int (card (dom (kv_tab tb))))] ]"

definition note_count_answer :: "tables \<Rightarrow> sqlval list list" where
  "note_count_answer tb = [ [SInt (int (card (dom (note_tab tb))))] ]"

text \<open>A query that reaches \<open>SQLITE_DONE\<close> has delivered its whole answer; one that
  fails has delivered the beginning of it.\<close>

definition answers :: "'db sql_outcome \<Rightarrow> sqlval list list \<Rightarrow> bool" where
  "answers r ans \<longleftrightarrow> prefix (so_rows r) ans \<and> (so_rc r = SQLITE_DONE \<longrightarrow> so_rows r = ans)"

definition changing_sqls :: "cstr list" where
  "changing_sqls = [kv_put_sql, kv_del_sql, note_create_sql, note_update_sql, note_del_sql]"

definition query_sqls :: "cstr list" where
  "query_sqls = [kv_get_sql, kv_list_sql, kv_count_sql, note_count_sql, note_list_sql, note_get_sql]"

lemmas sql_sets = changing_sqls_def query_sqls_def

section \<open>What a store call does to the tables\<close>

text \<open>The public operations as values, their replies, and the dispatch from the one
  to the other.  \<open>cap\<close> is the capacity of the caller's output buffer.\<close>

datatype store_call =
    KvPut "cstr option" "cstr option"
  | KvGet "cstr option"
  | KvDel "cstr option"
  | KvList cstr int
  | NoteCreate "cstr option" "cstr option"
  | NoteList int int
  | NoteGet int
  | NoteUpdate int "cstr option" "cstr option"
  | NoteDel int
  | Counts

datatype store_reply = Failed ApiError | Fine | Text cstr | NewId int | CountsOf int int

definition reply_status :: "ApiError \<Rightarrow> store_reply" where
  "reply_status e = (if e = API_OK then Fine else Failed e)"

fun store_do :: "'db sqlite3 \<Rightarrow> int \<Rightarrow> nat \<Rightarrow> store_call \<Rightarrow> 'db option \<Rightarrow> store_reply \<times> 'db option" where
  "store_do sq now cap (KvPut key val) st = map_prod reply_status (\<lambda>s. s) (store_kv_put sq now st key val)"
| "store_do sq now cap (KvGet key) st = map_prod (case_sum Failed Text) (\<lambda>s. s) (store_kv_get sq st key (Some cap))"
| "store_do sq now cap (KvDel key) st = map_prod reply_status (\<lambda>s. s) (store_kv_del sq st key)"
| "store_do sq now cap (KvList p n) st = map_prod (case_sum Failed Text) (\<lambda>s. s) (store_kv_list sq st (Some p) n (Some cap))"
| "store_do sq now cap (NoteCreate t b) st = map_prod (case_sum Failed NewId) (\<lambda>s. s) (store_note_create sq now st t b)"
| "store_do sq now cap (NoteList n off) st = map_prod (case_sum Failed Text) snd (store_note_list sq st n off (Some cap) (Some 0))"
| "store_do sq now cap (NoteGet i) st = map_prod (case_sum Failed Text) (\<lambda>s. s) (store_note_get sq st i (Some cap))"
| "store_do sq now cap (NoteUpdate i t b) st = map_prod reply_status (\<lambda>s. s) (store_note_update sq now st i t b)"
| "store_do sq now cap (NoteDel i) st = map_prod reply_status (\<lambda>s. s) (store_note_del sq st i)"
| "store_do sq now cap Counts st = map_prod (case_sum Failed (\<lambda>(k, n). CountsOf k n)) (\<lambda>s. s) (store_counts sq st)"

definition put_check :: "cstr option \<Rightarrow> cstr option \<Rightarrow> ApiError" where
  "put_check key val = (if store_validate_key key \<noteq> API_OK then store_validate_key key else validate_value val)"

text \<open>Rendered rows.\<close>

fun kv_render :: "bool \<Rightarrow> (cstr \<times> cstr) list \<Rightarrow> cstr" where
  "kv_render first [] = []"
| "kv_render first ((k, v) # ps) =
     (if first then [] else '','') @ kv_item (escape_ref k) (escape_ref v) @ kv_render False ps"

definition kv_pairs :: "tables \<Rightarrow> cstr list \<Rightarrow> (cstr \<times> cstr) list" where
  "kv_pairs tb ks = map (\<lambda>k. (k, fst (the (kv_tab tb k)))) ks"

definition kv_json :: "(cstr \<times> cstr) list \<Rightarrow> cstr" where
  "kv_json ps = ''['' @ kv_render True ps @ '']''"

definition kv_pair_ok :: "cstr \<times> cstr \<Rightarrow> bool" where
  "kv_pair_ok = (\<lambda>(k, v). list_all escapable v \<and> length (escape_ref v) < STORE_MAX_VALUE_LEN + 1024)"

definition note_json :: "int \<Rightarrow> note_row \<Rightarrow> cstr" where
  "note_json i n = note_item i (escape_ref (nr_title n)) (escape_ref (nr_body n)) (nr_created n) (nr_updated n)"

definition note_ok :: "note_row \<Rightarrow> bool" where
  "note_ok n \<longleftrightarrow> list_all escapable (nr_title n) \<and> list_all escapable (nr_body n)"

fun note_render :: "bool \<Rightarrow> (int \<times> note_row) list \<Rightarrow> cstr" where
  "note_render first [] = []"
| "note_render first ((i, n) # ns) = (if first then [] else '','') @ note_json i n @ note_render False ns"

definition note_pairs :: "tables \<Rightarrow> int list \<Rightarrow> (int \<times> note_row) list" where
  "note_pairs tb is = map (\<lambda>i. (i, the (note_tab tb i))) is"

definition notes_json :: "(int \<times> note_row) list \<Rightarrow> int \<Rightarrow> cstr" where
  "notes_json ns cnt = ''{'' @ DQ # ''items'' @ DQ # '':['' @ note_render True ns @
     ''],'' @ jnum ''total'' (show_int cnt) @ ''}''"

definition list_pattern :: "cstr \<Rightarrow> cstr" where
  "list_pattern p = snprintf_buf (STORE_MAX_KEY_LEN + 2) (p @ ''%'')"

text \<open>The specification: reply and new tables of a call that the database does not
  fail.\<close>

fun call_spec :: "int \<Rightarrow> nat \<Rightarrow> tables \<Rightarrow> store_call \<Rightarrow> store_reply \<Rightarrow> tables \<Rightarrow> bool" where
  "call_spec now cap tb (KvPut key val) rep tb' \<longleftrightarrow>
     (if put_check key val \<noteq> API_OK then rep = Failed (put_check key val) \<and> tb' = tb
      else rep = Fine \<and> tb' = tb\<lparr>kv_tab := (kv_tab tb)(the key \<mapsto> (the val, now))\<rparr>)"
| "call_spec now cap tb (KvGet key) rep tb' \<longleftrightarrow> tb' = tb \<and>
     rep = (if store_validate_key key \<noteq> API_OK then Failed API_ERR_INVALID_KEY
            else case kv_tab tb (the key) of
                None \<Rightarrow> Failed API_ERR_NOT_FOUND
              | Some (v, _) \<Rightarrow> if length v < cap then Text v else Failed API_ERR_PAYLOAD_TOO_LARGE)"
| "call_spec now cap tb (KvDel key) rep tb' \<longleftrightarrow>
     (if store_validate_key key \<noteq> API_OK then rep = Failed API_ERR_INVALID_KEY \<and> tb' = tb
      else rep = (if kv_tab tb (the key) = None then Failed API_ERR_NOT_FOUND else Fine) \<and>
        tb' = tb\<lparr>kv_tab := (kv_tab tb)(the key := None)\<rparr>)"
| "call_spec now cap tb (KvList p n) rep tb' \<longleftrightarrow> tb' = tb \<and>
     (if n \<le> 0 \<or> n > STORE_MAX_LIST then rep = Failed API_ERR_INVALID_QUERY
      else let ps = kv_pairs tb (take (nat n) (matching_keys tb (list_pattern p)))
           in if list_all kv_pair_ok ps \<and> length (kv_json ps) < cap then rep = Text (kv_json ps)
              else rep \<in> {Failed API_ERR_INTERNAL, Failed API_ERR_PAYLOAD_TOO_LARGE})"
| "call_spec now cap tb (NoteCreate t b) rep tb' \<longleftrightarrow>
     (if validate_note_fields t b \<noteq> API_OK then rep = Failed (validate_note_fields t b) \<and> tb' = tb
      else \<exists>i. note_seq tb < i \<and> 0 < i \<and> i \<le> LONG_MAX \<and> rep = NewId i \<and>
        tb' = tb\<lparr>note_tab := (note_tab tb)(i \<mapsto>
          \<lparr>nr_title = the t, nr_body = the b, nr_created = now, nr_updated = now\<rparr>), note_seq := i\<rparr>)"
| "call_spec now cap tb (NoteList n off) rep tb' \<longleftrightarrow> tb' = tb \<and>
     (if n \<le> 0 \<or> n > STORE_MAX_LIST \<or> off < 0 then rep = Failed API_ERR_INVALID_QUERY
      else let ns = note_pairs tb (take (nat n) (drop (nat off) (note_ids tb)));
               out = notes_json ns (int (card (dom (note_tab tb))))
           in if list_all (note_ok \<circ> snd) ns \<and> length out < cap \<and> 16 \<le> cap then rep = Text out
              else rep \<in> {Failed API_ERR_INTERNAL, Failed API_ERR_PAYLOAD_TOO_LARGE})"
| "call_spec now cap tb (NoteGet i) rep tb' \<longleftrightarrow> tb' = tb \<and>
     rep = (if i \<le> 0 then Failed API_ERR_INVALID_ID
            else case note_tab tb i of
                None \<Rightarrow> Failed API_ERR_NOT_FOUND
              | Some n \<Rightarrow> if \<not> note_ok n then Failed API_ERR_INTERNAL
                          else if length (note_json i n) < cap then Text (note_json i n)
                          else Failed API_ERR_PAYLOAD_TOO_LARGE)"
| "call_spec now cap tb (NoteUpdate i t b) rep tb' \<longleftrightarrow>
     (if i \<le> 0 then rep = Failed API_ERR_INVALID_ID \<and> tb' = tb
      else if validate_note_fields t b \<noteq> API_OK then rep = Failed (validate_note_fields t b) \<and> tb' = tb
      else rep = (if note_tab tb i = None then Failed API_ERR_NOT_FOUND else Fine) \<and>
        tb' = tb\<lparr>note_tab := (note_tab tb)(i := map_option
          (\<lambda>n. n\<lparr>nr_title := the t, nr_body := the b, nr_updated := now\<rparr>) (note_tab tb i))\<rparr>)"
| "call_spec now cap tb (NoteDel i) rep tb' \<longleftrightarrow>
     (if i \<le> 0 then rep = Failed API_ERR_INVALID_ID \<and> tb' = tb
      else rep = (if note_tab tb i = None then Failed API_ERR_NOT_FOUND else Fine) \<and>
        tb' = tb\<lparr>note_tab := (note_tab tb)(i := None)\<rparr>)"
| "call_spec now cap tb Counts rep tb' \<longleftrightarrow> tb' = tb \<and>
     rep = CountsOf (int (card (dom (kv_tab tb)))) (int (card (dom (note_tab tb))))"

text \<open>The arguments are C strings, and the buffers are not empty.\<close>

fun call_args :: "store_call \<Rightarrow> bool" where
  "call_args (KvPut key val) \<longleftrightarrow> (case val of None \<Rightarrow> True | Some v \<Rightarrow> nonul v)"
| "call_args (KvList p n) \<longleftrightarrow> nonul p \<and> is_ascii p"
| "call_args (NoteCreate t b) \<longleftrightarrow> pred_option nonul t \<and> pred_option nonul b"
| "call_args (NoteUpdate i t b) \<longleftrightarrow> pred_option nonul t \<and> pred_option nonul b"
| "call_args _ \<longleftrightarrow> True"

text \<open>The invariant of the tables: nothing that fails validation is stored, and the
  note ids are positive and not above the sequence.\<close>

definition table_inv :: "tables \<Rightarrow> bool" where
  "table_inv tb \<longleftrightarrow>
     (\<forall>k v t. kv_tab tb k = Some (v, t) \<longrightarrow>
        store_validate_key (Some k) = API_OK \<and> validate_value (Some v) = API_OK \<and> nonul v) \<and>
     (\<forall>i n. note_tab tb i = Some n \<longrightarrow> 0 < i \<and> i \<le> note_seq tb \<and>
        validate_note_fields (Some (nr_title n)) (Some (nr_body n)) = API_OK \<and>
        nonul (nr_title n) \<and> nonul (nr_body n))"

section \<open>Facts about the tables\<close>

lemma key_char_ok_ascii: "key_char_ok c \<Longrightarrow> 0x20 < uchar c \<and> uchar c < 128 \<and> c \<noteq> DQ \<and> c \<noteq> BSLASH"
  by (auto simp: key_char_ok_def)

lemma named_escape_None: "0x20 \<le> uchar c \<Longrightarrow> c \<noteq> DQ \<Longrightarrow> c \<noteq> BSLASH \<Longrightarrow> named_escape c = None"
  by (auto simp: named_escape_def)

lemma key_char_ok_plain:
  assumes "key_char_ok c"
  shows "escapable c \<and> escape_seq c = [c] \<and> c \<noteq> NUL"
proof -
  note k = key_char_ok_ascii [OF assms]
  then have "named_escape c = None" by (simp add: named_escape_None)
  moreover have "c \<noteq> NUL" using k by auto
  ultimately show ?thesis using k by (simp add: escapable_def escape_seq_def)
qed

lemma valid_keyD:
  assumes "store_validate_key (Some k) = API_OK"
  shows "k \<noteq> []" "length k \<le> STORE_MAX_KEY_LEN" "list_all key_char_ok k"
  using assms by (auto simp: store_validate_key_def split: if_splits)

lemma valid_key_plain:
  assumes "store_validate_key (Some k) = API_OK"
  shows "is_ascii k" "list_all escapable k" "escape_ref k = k" "nonul k"
proof -
  have "list_all key_char_ok k" using valid_keyD(3) [OF assms] .
  then show "is_ascii k" "list_all escapable k" "escape_ref k = k" "nonul k"
    by (induction k) (auto simp: is_ascii_def dest: key_char_ok_ascii key_char_ok_plain)
qed

lemma validate_value_OK: "validate_value (Some v) = API_OK \<longleftrightarrow> length v \<le> STORE_MAX_VALUE_LEN"
  by (simp add: validate_value_def)

lemma validate_note_OK:
  "validate_note_fields (Some t) (Some b) = API_OK \<longleftrightarrow>
     t \<noteq> [] \<and> length t \<le> STORE_MAX_TITLE_LEN \<and> length b \<le> STORE_MAX_BODY_LEN"
  by (simp add: validate_note_fields_def)

lemma table_inv_kvD:
  assumes "table_inv tb" "kv_tab tb k = Some (v, t)"
  shows "store_validate_key (Some k) = API_OK" "length v \<le> STORE_MAX_VALUE_LEN" "nonul v"
  using assms by (auto simp: table_inv_def validate_value_OK)

lemma table_inv_noteD:
  assumes "table_inv tb" "note_tab tb i = Some n"
  shows "0 < i" "i \<le> note_seq tb" "length (nr_title n) \<le> STORE_MAX_TITLE_LEN"
    "length (nr_body n) \<le> STORE_MAX_BODY_LEN" "nonul (nr_title n)" "nonul (nr_body n)"
  using assms by (auto simp: table_inv_def validate_note_OK)

section \<open>The laws of SQLite\<close>

lemma sql_known [simp]:
  "kv_put_sql \<in> set changing_sqls" "kv_del_sql \<in> set changing_sqls" "note_create_sql \<in> set changing_sqls"
  "note_update_sql \<in> set changing_sqls" "note_del_sql \<in> set changing_sqls"
  "kv_get_sql \<in> set query_sqls" "kv_list_sql \<in> set query_sqls" "kv_count_sql \<in> set query_sqls"
  "note_count_sql \<in> set query_sqls" "note_list_sql \<in> set query_sqls" "note_get_sql \<in> set query_sqls"
  by (simp_all add: sql_sets)

locale sqlite_laws =
  fixes sq :: "'db sqlite3"
    and view :: "'db \<Rightarrow> tables"
    and up :: "'db \<Rightarrow> bool"
  assumes column_text: "sq_column_text sq (SText s) = Some s"
    and column_int64: "sq_column_int64 sq (SInt i) = i"
    and tables_finite: "finite (dom (kv_tab (view db)))" "finite (dom (note_tab (view db)))"
    and prepare_up: "up db \<Longrightarrow> sql \<in> set changing_sqls \<union> set query_sqls \<Longrightarrow> sq_prepare sq db sql = SQLITE_OK"
    and run_up: "up db \<Longrightarrow> sql \<in> set changing_sqls \<union> set query_sqls \<Longrightarrow> up (so_db (sq_run sq db sql args))"
    and run_done: "up db \<Longrightarrow> sql \<in> set changing_sqls \<union> set query_sqls \<Longrightarrow>
        sql \<noteq> note_create_sql \<or> note_seq (view db) < LONG_MAX \<Longrightarrow> so_rc (sq_run sq db sql args) = SQLITE_DONE"
    and init_keeps: "sql \<in> set init_sqls \<Longrightarrow> view (snd (sq_exec sq db sql)) = view db"
    and query_keeps: "sql \<in> set query_sqls \<Longrightarrow> view (so_db (sq_run sq db sql args)) = view db"
    and change_no_rows: "sql \<in> set changing_sqls \<Longrightarrow> so_rows (sq_run sq db sql args) = []"
    and change_atomic: "sql \<in> set changing_sqls \<Longrightarrow> so_rc (sq_run sq db sql args) \<noteq> SQLITE_DONE \<Longrightarrow>
        view (so_db (sq_run sq db sql args)) = view db"
    and kv_put_done: "r = sq_run sq db kv_put_sql [SText k, SText v, SInt u] \<Longrightarrow> so_rc r = SQLITE_DONE \<Longrightarrow>
        view (so_db r) = view db \<lparr>kv_tab := (kv_tab (view db)) (k \<mapsto> (v, u))\<rparr>"
    and kv_del_done: "r = sq_run sq db kv_del_sql [SText k] \<Longrightarrow> so_rc r = SQLITE_DONE \<Longrightarrow>
        view (so_db r) = view db \<lparr>kv_tab := (kv_tab (view db)) (k := None)\<rparr> \<and>
        so_changes r = (if kv_tab (view db) k = None then 0 else 1)"
    and note_create_done: "r = sq_run sq db note_create_sql [SText t, SText b, SInt c, SInt u] \<Longrightarrow>
        so_rc r = SQLITE_DONE \<Longrightarrow>
        view (so_db r) = view db \<lparr>note_tab := (note_tab (view db))
            (so_rowid r \<mapsto> \<lparr>nr_title = t, nr_body = b, nr_created = c, nr_updated = u\<rparr>),
          note_seq := so_rowid r\<rparr> \<and>
        note_seq (view db) < so_rowid r \<and> 0 < so_rowid r \<and> so_rowid r \<le> LONG_MAX"
    and note_update_done: "r = sq_run sq db note_update_sql [SText t, SText b, SInt u, SInt i] \<Longrightarrow>
        so_rc r = SQLITE_DONE \<Longrightarrow>
        view (so_db r) = view db \<lparr>note_tab := (note_tab (view db))
            (i := map_option (\<lambda>n. n \<lparr>nr_title := t, nr_body := b, nr_updated := u\<rparr>) (note_tab (view db) i))\<rparr> \<and>
        so_changes r = (if note_tab (view db) i = None then 0 else 1)"
    and note_del_done: "r = sq_run sq db note_del_sql [SInt i] \<Longrightarrow> so_rc r = SQLITE_DONE \<Longrightarrow>
        view (so_db r) = view db \<lparr>note_tab := (note_tab (view db)) (i := None)\<rparr> \<and>
        so_changes r = (if note_tab (view db) i = None then 0 else 1)"
    and kv_get_answers: "answers (sq_run sq db kv_get_sql [SText k]) (kv_get_answer (view db) k)"
    and kv_list_answers: "is_ascii pat \<Longrightarrow> \<forall>k \<in> dom (kv_tab (view db)). is_ascii k \<Longrightarrow>
        answers (sq_run sq db kv_list_sql [SText pat, SInt n]) (kv_list_answer (view db) pat n)"
    and kv_count_answers: "answers (sq_run sq db kv_count_sql []) (kv_count_answer (view db))"
    and note_count_answers: "answers (sq_run sq db note_count_sql []) (note_count_answer (view db))"
    and note_list_answers: "answers (sq_run sq db note_list_sql [SInt n, SInt off]) (note_list_answer (view db) n off)"
    and note_get_answers: "answers (sq_run sq db note_get_sql [SInt i]) (note_get_answer (view db) i)"
begin

lemma step_rc_change [simp]:
  "sql \<in> set changing_sqls \<Longrightarrow> step_rc (sq_run sq db sql args) = so_rc (sq_run sq db sql args)"
  by (simp add: step_rc_def change_no_rows)

end

section \<open>The operations meet the specification\<close>

text \<open>Each operation is its specification or, when a database call fails, an
  internal error that leaves the tables alone.\<close>

definition refines ::
  "('db \<Rightarrow> tables) \<Rightarrow> ('db \<Rightarrow> bool) \<Rightarrow> int \<Rightarrow> nat \<Rightarrow> 'db \<Rightarrow> store_call \<Rightarrow> store_reply \<Rightarrow> 'db option \<Rightarrow> bool" where
  "refines view up now cap db call rep st' \<longleftrightarrow>
     (\<exists>db'. st' = Some db' \<and> (up db \<longrightarrow> up db') \<and>
        (call_spec now cap (view db) call rep (view db') \<or>
         rep = Failed API_ERR_INTERNAL \<and> view db' = view db \<and>
           \<not> (up db \<and> note_seq (view db) < LONG_MAX)))"

lemma create_not_query: "note_create_sql \<notin> set query_sqls"
  by code_simp

context sqlite_laws
begin

lemma query_done: "up db \<Longrightarrow> sql \<in> set query_sqls \<Longrightarrow> so_rc (sq_run sq db sql args) = SQLITE_DONE"
  using run_done [of db sql args] create_not_query by blast

text \<open>The row loops.\<close>

lemma kv_list_rows_pairs:
  "length out < cap \<Longrightarrow> \<forall>(k, v) \<in> set ps. store_validate_key (Some k) = API_OK \<and> nonul v \<Longrightarrow>
   kv_list_rows sq cap first out (map (\<lambda>(k, v). [SText k, SText v]) ps) = (e, out') \<Longrightarrow>
   (if list_all kv_pair_ok ps \<and> length (out @ kv_render first ps) < cap
    then e = API_OK \<and> out' = out @ kv_render first ps
    else e \<in> {API_ERR_INTERNAL, API_ERR_PAYLOAD_TOO_LARGE})"
proof (induction ps arbitrary: first out)
  case (Cons p ps)
  obtain k v where p: "p = (k, v)" by fastforce
  have k: "store_validate_key (Some k) = API_OK" and v: "nonul v" using Cons.prems(2) p by auto
  note kp = valid_key_plain [OF k] and kl = valid_keyD(2) [OF k]
  let ?item = "(if first then [] else '','') @ kv_item (escape_ref k) (escape_ref v)"
  have row: "kv_list_rows sq cap first out (map (\<lambda>(k, v). [SText k, SText v]) (p # ps)) =
      (if kv_pair_ok p then
         if length ?item \<ge> cap - length out then (API_ERR_PAYLOAD_TOO_LARGE, out)
         else kv_list_rows sq cap False (out @ ?item) (map (\<lambda>(k, v). [SText k, SText v]) ps)
       else (API_ERR_INTERNAL, out))"
    using kp kl v by (simp add: p col_def column_text json_escape_ref kv_pair_ok_def Let_def)
  show ?case
  proof (cases "kv_pair_ok p \<and> length (out @ ?item) < cap")
    case True
    then have "kv_list_rows sq cap False (out @ ?item) (map (\<lambda>(k, v). [SText k, SText v]) ps) = (e, out')"
      using Cons.prems(3) unfolding row by (auto split: if_splits)
    from Cons.IH [OF _ _ this] True Cons.prems(2) show ?thesis by (cases first) (simp_all add: p split: if_splits)
  next
    case False
    then have "e \<in> {API_ERR_INTERNAL, API_ERR_PAYLOAD_TOO_LARGE}"
      using Cons.prems(1,3) unfolding row by (auto split: if_splits)
    then show ?thesis using False by (auto simp: p)
  qed
qed simp

lemma note_row_json:
  assumes "table_inv tb" "note_tab tb i = Some n"
  shows "note_row_to_json sq (note_cols tb i) cap out =
    (if \<not> note_ok n then Inl API_ERR_INTERNAL
     else if length (note_json i n) \<ge> cap - length out then Inl API_ERR_PAYLOAD_TOO_LARGE
     else Inr (out @ note_json i n))"
  using table_inv_noteD [OF assms] assms(2)
    json_escape_double [of "nr_title n" "Suc STORE_MAX_TITLE_LEN" "STORE_MAX_TITLE_LEN * 2 + 1"]
    json_escape_double [of "nr_body n" "Suc STORE_MAX_BODY_LEN" "STORE_MAX_BODY_LEN * 2 + 1"]
  by (auto simp: note_row_to_json_def note_cols_def col_def column_text column_int64 note_ok_def note_json_def Let_def)

lemma note_list_rows_pairs:
  "table_inv tb \<Longrightarrow> length out < cap \<Longrightarrow> set is \<subseteq> dom (note_tab tb) \<Longrightarrow>
   (if list_all (note_ok \<circ> snd) (note_pairs tb is) \<and> length (out @ note_render first (note_pairs tb is)) < cap
    then note_list_rows sq cap first out (map (note_cols tb) is) = Inr (out @ note_render first (note_pairs tb is))
    else note_list_rows sq cap first out (map (note_cols tb) is) \<in> {Inl API_ERR_INTERNAL, Inl API_ERR_PAYLOAD_TOO_LARGE})"
proof (induction "is" arbitrary: first out)
  case (Cons i "is")
  then obtain n where n: "note_tab tb i = Some n" by auto
  let ?out = "(if first then out else out @ '','') @ note_json i n"
  have row: "note_list_rows sq cap first out (map (note_cols tb) (i # is)) =
      (if \<not> first \<and> length out + 1 \<ge> cap then Inl API_ERR_PAYLOAD_TOO_LARGE
       else if \<not> note_ok n then Inl API_ERR_INTERNAL
       else if length ?out \<ge> cap then Inl API_ERR_PAYLOAD_TOO_LARGE
       else note_list_rows sq cap False ?out (map (note_cols tb) is))"
    using Cons.prems(2) by (auto simp: note_row_json [OF Cons.prems(1) n])
  show ?case
  proof (cases "note_ok n \<and> length ?out < cap")
    case True
    then have "note_list_rows sq cap first out (map (note_cols tb) (i # is)) =
        note_list_rows sq cap False ?out (map (note_cols tb) is)"
      unfolding row by (auto split: if_splits)
    with Cons.IH [of ?out False] Cons.prems True n show ?thesis
      by (cases first) (auto simp: note_pairs_def split: if_splits)
  next
    case False
    then show ?thesis unfolding row using n by (auto simp: note_pairs_def split: if_splits)
  qed
qed (simp add: note_pairs_def)


lemma kv_put_refines:
  "store_do sq now cap (KvPut key val) (Some db) = (rep, st') \<Longrightarrow> refines view up now cap db (KvPut key val) rep st'"
  using prepare_up [of db kv_put_sql] run_up [of db kv_put_sql] run_done [of db kv_put_sql]
    change_atomic [of kv_put_sql db] kv_put_done [OF refl, of db "the key" "the val" now]
  by (auto simp: store_kv_put_def refines_def reply_status_def put_check_def Let_def sql_sets split: if_splits)


lemma kv_del_refines:
  "store_do sq now cap (KvDel key) (Some db) = (rep, st') \<Longrightarrow> refines view up now cap db (KvDel key) rep st'"
  using prepare_up [of db kv_del_sql] run_up [of db kv_del_sql] run_done [of db kv_del_sql]
    change_atomic [of kv_del_sql db] kv_del_done [OF refl, of db "the key"]
  by (auto simp: store_kv_del_def refines_def reply_status_def Let_def sql_sets split: if_splits)

lemma note_create_refines:
  "store_do sq now cap (NoteCreate t b) (Some db) = (rep, st') \<Longrightarrow>
   refines view up now cap db (NoteCreate t b) rep st'"
  using prepare_up [of db note_create_sql] run_up [of db note_create_sql] run_done [of db note_create_sql]
    change_atomic [of note_create_sql db] note_create_done [OF refl, of db "the t" "the b" now now]
  by (auto simp: store_note_create_def refines_def Let_def sql_sets split: if_splits)

lemma note_update_refines:
  "store_do sq now cap (NoteUpdate i t b) (Some db) = (rep, st') \<Longrightarrow>
   refines view up now cap db (NoteUpdate i t b) rep st'"
  using prepare_up [of db note_update_sql] run_up [of db note_update_sql] run_done [of db note_update_sql]
    change_atomic [of note_update_sql db] note_update_done [OF refl, of db "the t" "the b" now i]
  by (auto simp: store_note_update_def refines_def reply_status_def Let_def sql_sets split: if_splits)

lemma note_del_refines:
  "store_do sq now cap (NoteDel i) (Some db) = (rep, st') \<Longrightarrow> refines view up now cap db (NoteDel i) rep st'"
  using prepare_up [of db note_del_sql] run_up [of db note_del_sql] run_done [of db note_del_sql]
    change_atomic [of note_del_sql db] note_del_done [OF refl, of db i]
  by (auto simp: store_note_del_def refines_def reply_status_def Let_def sql_sets split: if_splits)

lemma answers_one:
  assumes "answers r [row]"
  shows "so_rows r = [row] \<or> so_rows r = [] \<and> so_rc r \<noteq> SQLITE_DONE"
  using assms by (auto simp: answers_def prefix_Cons)

lemma answers_none: "answers r [] \<Longrightarrow> so_rows r = []"
  by (simp add: answers_def)

lemma kv_get_refines:
  assumes "0 < cap" "table_inv (view db)" "store_do sq now cap (KvGet key) (Some db) = (rep, st')"
  shows "refines view up now cap db (KvGet key) rep st'"
proof -
  let ?r = "sq_run sq db kv_get_sql [SText (the key)]"
  have a: "answers ?r (kv_get_answer (view db) (the key))" by (rule kv_get_answers)
  note laws = prepare_up [of db kv_get_sql] run_up [of db kv_get_sql] run_done [of db kv_get_sql]
    query_keeps [of kv_get_sql db]
  show ?thesis
  proof (cases "kv_tab (view db) (the key)")
    case None
    then have "so_rows ?r = []" using a by (simp add: kv_get_answer_def answers_none)
    then show ?thesis using laws None assms
      by (auto simp: store_kv_get_def refines_def Let_def sql_sets split: if_splits)
  next
    case (Some p)
    obtain v t where p: "p = (v, t)" by fastforce
    then have "so_rows ?r = [ [SText v] ] \<or> so_rows ?r = [] \<and> so_rc ?r \<noteq> SQLITE_DONE"
      using a Some answers_one [of ?r "[SText v]"] by (simp add: kv_get_answer_def)
    moreover have "nonul v" using table_inv_kvD(3) [OF assms(2)] Some p by blast
    ultimately show ?thesis using laws Some p assms
      by (auto simp: store_kv_get_def refines_def Let_def sql_sets col_def column_text split: if_splits)
  qed
qed

lemma note_get_refines:
  assumes "0 < cap" "table_inv (view db)" "store_do sq now cap (NoteGet i) (Some db) = (rep, st')"
  shows "refines view up now cap db (NoteGet i) rep st'"
proof -
  let ?r = "sq_run sq db note_get_sql [SInt i]"
  have a: "answers ?r (note_get_answer (view db) i)" by (rule note_get_answers)
  note laws = prepare_up [of db note_get_sql] run_up [of db note_get_sql] run_done [of db note_get_sql]
    query_keeps [of note_get_sql db]
  show ?thesis
  proof (cases "note_tab (view db) i")
    case None
    then have "so_rows ?r = []" using a by (simp add: note_get_answer_def answers_none)
    then show ?thesis using laws None assms
      by (auto simp: store_note_get_def refines_def Let_def sql_sets split: if_splits)
  next
    case (Some n)
    then have "so_rows ?r = [note_cols (view db) i] \<or> so_rows ?r = [] \<and> so_rc ?r \<noteq> SQLITE_DONE"
      using a answers_one [of ?r "note_cols (view db) i"] by (simp add: note_get_answer_def)
    then show ?thesis using laws Some assms note_row_json [OF assms(2) Some, of cap "[]"]
      by (auto simp: store_note_get_def refines_def Let_def sql_sets split: if_splits)
  qed
qed


lemma kv_render_append: "length (kv_render first xs) \<le> length (kv_render first (xs @ ys))"
  by (induction first xs rule: kv_render.induct) auto

lemma prefix_map_take: "prefix rows (map f xs) \<Longrightarrow> \<exists>m. rows = map f (take m xs)"
  by (metis prefix_def append_eq_conv_conj take_map)

lemma map_take_all: "map f (take m xs) = map f xs \<Longrightarrow> take m xs = xs"
  by (drule map_eq_imp_length_eq) (auto simp: min_def split: if_splits)

lemma kv_list_answer_pairs:
  "map (kv_row tb) ks = map (\<lambda>(k, v). [SText k, SText v]) (kv_pairs tb ks)"
  by (simp add: kv_row_def kv_pairs_def)

lemma kv_pairs_take:
  "length (kv_json (kv_pairs tb (take m ks))) \<le> length (kv_json (kv_pairs tb ks))"
  "list_all kv_pair_ok (kv_pairs tb ks) \<Longrightarrow> list_all kv_pair_ok (kv_pairs tb (take m ks))"
proof -
  have split: "kv_pairs tb ks = kv_pairs tb (take m ks) @ kv_pairs tb (drop m ks)"
    by (simp add: kv_pairs_def flip: map_append)
  show "length (kv_json (kv_pairs tb (take m ks))) \<le> length (kv_json (kv_pairs tb ks))"
    using kv_render_append [of True "kv_pairs tb (take m ks)" "kv_pairs tb (drop m ks)"]
    by (simp add: kv_json_def flip: split)
  assume "list_all kv_pair_ok (kv_pairs tb ks)"
  then show "list_all kv_pair_ok (kv_pairs tb (take m ks))" by (subst (asm) split) simp
qed

lemma kv_pairs_valid:
  assumes "table_inv tb" "finite (dom (kv_tab tb))" "set ks \<subseteq> set (matching_keys tb pat)"
  shows "\<forall>(k, v) \<in> set (kv_pairs tb ks). store_validate_key (Some k) = API_OK \<and> nonul v"
proof -
  have "store_validate_key (Some k) = API_OK \<and> nonul (fst (the (kv_tab tb k)))" if "k \<in> set ks" for k
  proof -
    have "k \<in> dom (kv_tab tb)" using that assms(2,3) by (auto simp: matching_keys_def)
    then obtain v t where "kv_tab tb k = Some (v, t)" by auto
    with table_inv_kvD [OF assms(1)] show ?thesis by auto
  qed
  then show ?thesis by (auto simp: kv_pairs_def)
qed

lemma is_ascii_list_pattern: "is_ascii p \<Longrightarrow> is_ascii (list_pattern p)"
  by (auto simp: is_ascii_def list_pattern_def snprintf_buf_def list_all_iff dest: in_set_takeD)

lemma kv_list_refines:
  assumes "0 < cap" "table_inv (view db)" "is_ascii p"
    "store_do sq now cap (KvList p n) (Some db) = (rep, st')"
  shows "refines view up now cap db (KvList p n) rep st'"
proof (cases "n \<le> 0 \<or> n > STORE_MAX_LIST \<or> sq_prepare sq db kv_list_sql \<noteq> SQLITE_OK \<or> cap < 3")
  case True
  then show ?thesis using assms prepare_up [of db kv_list_sql]
    by (auto simp: store_kv_list_def refines_def sql_sets Let_def kv_json_def split: if_splits)
next
  case False
  let ?pat = "list_pattern p" and ?tb = "view db"
  let ?r = "sq_run sq db kv_list_sql [SText ?pat, SInt n]"
  define ks where "ks = take (nat n) (matching_keys ?tb ?pat)"
  have "\<forall>k \<in> dom (kv_tab ?tb). is_ascii k"
    using table_inv_kvD(1) [OF assms(2)] valid_key_plain(1) by fastforce
  then have a: "answers ?r (map (kv_row ?tb) ks)"
    using kv_list_answers [OF is_ascii_list_pattern [OF assms(3)]] by (simp add: kv_list_answer_def ks_def)
  then obtain m where m: "so_rows ?r = map (kv_row ?tb) (take m ks)"
    unfolding answers_def using prefix_map_take by blast
  define ps ws where "ps = kv_pairs ?tb (take m ks)" and "ws = kv_pairs ?tb ks"
  obtain e out where eo: "kv_list_rows sq cap True ''['' (so_rows ?r) = (e, out)" by fastforce
  have "\<forall>(k, v) \<in> set ps. store_validate_key (Some k) = API_OK \<and> nonul v"
    using kv_pairs_valid [OF assms(2) tables_finite(1), of "take m ks" ?pat]
    unfolding ps_def ks_def by (meson in_set_takeD subset_code(1))
  from kv_list_rows_pairs [OF _ this eo [unfolded m kv_list_answer_pairs, folded ps_def]] False
  have loop: "if list_all kv_pair_ok ps \<and> length (''['' @ kv_render True ps) < cap
      then e = API_OK \<and> out = ''['' @ kv_render True ps
      else e \<in> {API_ERR_INTERNAL, API_ERR_PAYLOAD_TOO_LARGE}" by simp
  have whole: "so_rc ?r = SQLITE_DONE \<Longrightarrow> ps = ws"
  proof -
    assume "so_rc ?r = SQLITE_DONE"
    then have "map (kv_row ?tb) (take m ks) = map (kv_row ?tb) ks" using a m by (simp add: answers_def)
    then have "take m ks = ks" by (rule map_take_all)
    then show "ps = ws" by (simp add: ps_def ws_def)
  qed
  have mono: "list_all kv_pair_ok ws \<Longrightarrow> length (kv_json ws) < cap \<Longrightarrow>
      list_all kv_pair_ok ps \<and> length (kv_json ps) < cap"
    using kv_pairs_take [where tb = ?tb and m = m and ks = ks] by (simp add: ps_def ws_def)
  have spec: "call_spec now cap ?tb (KvList p n) rep (view (so_db ?r)) \<longleftrightarrow>
      (if list_all kv_pair_ok ws \<and> length (kv_json ws) < cap then rep = Text (kv_json ws)
       else rep \<in> {Failed API_ERR_INTERNAL, Failed API_ERR_PAYLOAD_TOO_LARGE})"
    using False query_keeps [of kv_list_sql db] by (simp add: Let_def ws_def ks_def)
  have res: "(rep, st') = (if e \<noteq> API_OK then Failed e
      else if so_rc ?r \<noteq> SQLITE_DONE then Failed API_ERR_INTERNAL
      else if length out + 2 > cap then Failed API_ERR_PAYLOAD_TOO_LARGE
      else Text (out @ '']''), Some (so_db ?r))"
    using assms(4) False eo by (auto simp: store_kv_list_def Let_def list_pattern_def)
  show ?thesis
  proof (cases "e = API_ERR_PAYLOAD_TOO_LARGE \<or> so_rc ?r = SQLITE_DONE")
    case True
    then have "call_spec now cap ?tb (KvList p n) rep (view (so_db ?r))"
      unfolding spec using loop whole mono res by (auto simp: kv_json_def split: if_splits)
    moreover have "st' = Some (so_db ?r)" "up db \<longrightarrow> up (so_db ?r)"
      using res run_up [of db kv_list_sql] by (simp_all add: sql_sets)
    ultimately show ?thesis unfolding refines_def by blast
  next
    case False
    then have "rep = Failed API_ERR_INTERNAL" and "\<not> up db"
      using loop res query_done [of db kv_list_sql] by (auto simp: sql_sets split: if_splits)
    then show ?thesis using res query_keeps [of kv_list_sql db] by (auto simp: refines_def)
  qed
qed


lemma note_ids_dom: "set (note_ids (view db)) = dom (note_tab (view db))"
  using tables_finite(2) [of db] by (simp add: note_ids_def)

lemma note_count_total:
  "up db \<Longrightarrow> count_of sq (sq_run sq db note_count_sql []) = int (card (dom (note_tab (view db))))"
  using note_count_answers [of db] query_done [of db note_count_sql]
  by (simp add: answers_def note_count_answer_def count_of_def col_def column_int64)

text \<open>The total that a listing reports through its last argument, also when the listing
  itself does not fit the buffer.\<close>

lemma note_list_total:
  assumes "up db" "0 < n" "n \<le> STORE_MAX_LIST" "0 \<le> off"
  shows "fst (snd (store_note_list sq (Some db) n off (Some cap) (Some t))) = Some (int (card (dom (note_tab (view db)))))"
  using assms prepare_up [OF assms(1), of note_count_sql] note_count_total [OF assms(1)]
  by (auto simp: store_note_list_def Let_def split: sum.splits)

lemma note_list_refines:
  assumes "up db" "table_inv (view db)" "store_do sq now cap (NoteList n off) (Some db) = (rep, st')"
  shows "refines view up now cap db (NoteList n off) rep st'"
proof (cases "n \<le> 0 \<or> n > STORE_MAX_LIST \<or> off < 0")
  case True
  then show ?thesis using assms by (auto simp: store_note_list_def refines_def split: if_splits)
next
  case False
  let ?tb = "view db" and ?start = "''{'' @ DQ # ''items'' @ DQ # '':[''"
  let ?rc = "sq_run sq db note_count_sql []"
  let ?db1 = "so_db ?rc" and ?total = "int (card (dom (note_tab ?tb)))"
  let ?r = "sq_run sq ?db1 note_list_sql [SInt n, SInt off]"
  define is' where "is' = take (nat n) (drop (nat off) (note_ids ?tb))"
  have up1: "up ?db1" and v1: "view ?db1 = ?tb" and up2: "up (so_db ?r)" and v2: "view (so_db ?r) = ?tb"
    using assms(1) run_up query_keeps by simp_all
  have rows: "so_rows ?r = map (note_cols ?tb) is'"
    using note_list_answers [of ?db1 n off] query_done [OF up1, of note_list_sql] v1
    by (simp add: answers_def note_list_answer_def is'_def)
  have cnt: "count_of sq ?rc = ?total" by (rule note_count_total [OF assms(1)])
  have sub: "set is' \<subseteq> dom (note_tab ?tb)"
    unfolding is'_def note_ids_dom [symmetric] by (meson in_set_dropD in_set_takeD subsetI)
  define ns where "ns = note_pairs ?tb is'"
  have spec: "call_spec now cap ?tb (NoteList n off) rep (view (so_db ?r)) \<longleftrightarrow>
      (if list_all (note_ok \<circ> snd) ns \<and> length (notes_json ns ?total) < cap \<and> 16 \<le> cap
       then rep = Text (notes_json ns ?total)
       else rep \<in> {Failed API_ERR_INTERNAL, Failed API_ERR_PAYLOAD_TOO_LARGE})"
    using False v2 by (simp add: Let_def ns_def is'_def)
  have "refines view up now cap db (NoteList n off) rep st'" if "cap < 16"
    using that assms(3) False up1 prepare_up assms(1) v1
    by (auto simp: store_note_list_def refines_def Let_def)
  moreover have "refines view up now cap db (NoteList n off) rep st'" if cap: "16 \<le> cap"
  proof -
    note loop = note_list_rows_pairs [OF assms(2) _ sub, of ?start cap True, folded ns_def]
    have res: "(rep, st') = (case note_list_rows sq cap True ?start (so_rows ?r) of
         Inl e \<Rightarrow> Failed e
       | Inr out \<Rightarrow>
           (let tail = ''],'' @ jnum ''total'' (show_int ?total) @ ''}''
            in if length tail \<ge> cap - length out then Failed API_ERR_PAYLOAD_TOO_LARGE else Text (out @ tail)),
         Some (so_db ?r))"
      using assms(3) False prepare_up [OF assms(1), of note_count_sql] prepare_up [OF up1, of note_list_sql]
        query_done [OF up1, of note_list_sql] cap cnt
      by (auto simp: store_note_list_def Let_def split: sum.splits if_splits)
    have "call_spec now cap ?tb (NoteList n off) rep (view (so_db ?r))"
      unfolding spec using res loop cap unfolding rows
      by (auto simp: notes_json_def Let_def split: if_splits sum.splits)
    then show ?thesis using res up2 unfolding refines_def by blast
  qed
  ultimately show ?thesis by linarith
qed

text \<open>What the two counts are whatever happens to their statements, once these were
  prepared: the number of entries if a row arrived, and 0 if none did.\<close>

lemma counts_reported:
  assumes "sq_prepare sq db kv_count_sql = SQLITE_OK"
    and "sq_prepare sq (so_db (sq_run sq db kv_count_sql [])) note_count_sql = SQLITE_OK"
  shows "\<exists>db'. store_counts sq (Some db) =
      (Inr (if so_rows (sq_run sq db kv_count_sql []) = [] then 0 else int (card (dom (kv_tab (view db)))),
            if so_rows (sq_run sq (so_db (sq_run sq db kv_count_sql [])) note_count_sql []) = [] then 0
            else int (card (dom (note_tab (view db))))), Some db') \<and> view db' = view db"
proof -
  let ?r1 = "sq_run sq db kv_count_sql []"
  let ?r2 = "sq_run sq (so_db ?r1) note_count_sql []"
  have v: "view (so_db ?r1) = view db" "view (so_db ?r2) = view db" using query_keeps by simp_all
  have one: "rows = [] \<or> rows = [x]" if "prefix rows [x]" for rows and x :: "sqlval list"
    using that by (cases rows) auto
  have "so_rows ?r1 = [] \<or> so_rows ?r1 = kv_count_answer (view db)"
    using kv_count_answers [of db] by (auto simp: answers_def kv_count_answer_def dest: one)
  moreover have "so_rows ?r2 = [] \<or> so_rows ?r2 = note_count_answer (view db)"
    using note_count_answers [of "so_db ?r1"] v(1) by (auto simp: answers_def note_count_answer_def dest: one)
  ultimately show ?thesis
    using assms v by (auto simp: store_counts_def Let_def count_of_def kv_count_answer_def note_count_answer_def
        col_def column_int64)
qed

lemma counts_refines:
  assumes "up db" "store_do sq now cap Counts (Some db) = (rep, st')"
  shows "refines view up now cap db Counts rep st'"
proof -
  let ?r1 = "sq_run sq db kv_count_sql []"
  let ?r2 = "sq_run sq (so_db ?r1) note_count_sql []"
  have up1: "up (so_db ?r1)" "up (so_db ?r2)" "view (so_db ?r1) = view db" "view (so_db ?r2) = view db"
    using assms(1) run_up query_keeps by simp_all
  have "so_rows ?r1 = kv_count_answer (view db)" "so_rows ?r2 = note_count_answer (view db)"
    using kv_count_answers [of db] note_count_answers [of "so_db ?r1"] up1
      query_done [OF assms(1), of kv_count_sql] query_done [OF up1(1), of note_count_sql]
    by (simp_all add: answers_def)
  then show ?thesis
    using assms up1 prepare_up [of db kv_count_sql] prepare_up [of "so_db ?r1" note_count_sql]
    by (auto simp: store_counts_def refines_def Let_def count_of_def kv_count_answer_def note_count_answer_def
        col_def column_int64)
qed

end

section \<open>Safety of any sequence of calls\<close>

lemma call_spec_keeps:
  assumes "call_spec now cap tb call rep tb'" "table_inv tb" "call_args call"
  shows "table_inv tb'" "note_seq tb \<le> note_seq tb'"
proof -
  show "note_seq tb \<le> note_seq tb'"
    using assms(1) by (cases call) (auto simp: Let_def split: if_splits)
  show "table_inv tb'"
  proof (cases call)
    case (KvPut key val)
    show ?thesis
    proof (cases "put_check key val = API_OK")
      case True
      then obtain k v where kv: "key = Some k" "val = Some v"
        by (cases key; cases val) (auto simp: put_check_def store_validate_key_def validate_value_def split: if_splits)
      then show ?thesis using assms KvPut True
        by (auto simp: table_inv_def put_check_def split: if_splits)
    qed (use assms KvPut in auto)
  next
    case (NoteCreate t b)
    show ?thesis
    proof (cases "validate_note_fields t b = API_OK")
      case True
      then obtain t' b' where tb: "t = Some t'" "b = Some b'"
        by (cases t; cases b) (auto simp: validate_note_fields_def)
      with assms(1) NoteCreate True obtain i where "note_seq tb < i" "0 < i"
        "tb' = tb\<lparr>note_tab := (note_tab tb)(i \<mapsto>
          \<lparr>nr_title = t', nr_body = b', nr_created = now, nr_updated = now\<rparr>), note_seq := i\<rparr>" by auto
      then show ?thesis using assms(2,3) NoteCreate True tb
        by (auto simp: table_inv_def) (metis less_imp_le order.trans)
    qed (use assms NoteCreate in auto)
  next
    case (NoteUpdate i t b)
    show ?thesis
    proof (cases "0 < i \<and> validate_note_fields t b = API_OK")
      case True
      then obtain t' b' where "t = Some t'" "b = Some b'"
        by (cases t; cases b) (auto simp: validate_note_fields_def)
      then show ?thesis using assms NoteUpdate True by (auto simp: table_inv_def)
    qed (use assms NoteUpdate in \<open>auto split: if_splits\<close>)
  qed (use assms in \<open>auto simp: table_inv_def Let_def split: if_splits\<close>)
qed

text \<open>A sequence of calls: each worker's operations are critical sections under the
  store's mutex, so any interleaving of them is such a sequence.\<close>

fun store_runs :: "'db sqlite3 \<Rightarrow> (int \<times> nat \<times> store_call) list \<Rightarrow> 'db option \<Rightarrow> store_reply list \<times> 'db option" where
  "store_runs sq [] st = ([], st)"
| "store_runs sq ((now, cap, call) # cs) st =
     (case store_do sq now cap call st of (rep, st1) \<Rightarrow>
      case store_runs sq cs st1 of (reps, st2) \<Rightarrow> (rep # reps, st2))"

definition new_ids :: "store_reply list \<Rightarrow> int list" where
  "new_ids reps = concat (map (\<lambda>rep. case rep of NewId i \<Rightarrow> [i] | _ \<Rightarrow> []) reps)"

context sqlite_laws
begin

lemma note_list_frame:
  "store_do sq now cap (NoteList n off) (Some db) = (rep, st') \<Longrightarrow>
   (\<exists>db'. st' = Some db' \<and> view db' = view db) \<and> (\<forall>i. rep \<noteq> NewId i)"
  by (auto simp: store_note_list_def Let_def query_keeps split: if_splits sum.splits)

lemma counts_frame:
  "store_do sq now cap Counts (Some db) = (rep, st') \<Longrightarrow>
   (\<exists>db'. st' = Some db' \<and> view db' = view db) \<and> (\<forall>i. rep \<noteq> NewId i)"
  by (auto simp: store_counts_def Let_def query_keeps split: if_splits)

lemma store_do_refines:
  assumes "table_inv (view db)" "call_args call" "0 < cap" "store_do sq now cap call (Some db) = (rep, st')"
    and "up db \<or> (call \<noteq> Counts \<and> (\<forall>n off. call \<noteq> NoteList n off))"
  shows "refines view up now cap db call rep st'"
proof (cases call)
  case (KvPut key val)
  then show ?thesis using kv_put_refines assms by blast
next
  case (KvGet key)
  then show ?thesis using kv_get_refines assms by blast
next
  case (KvDel key)
  then show ?thesis using kv_del_refines assms by blast
next
  case (KvList p n)
  then show ?thesis using kv_list_refines assms by auto
next
  case (NoteCreate t b)
  then show ?thesis using note_create_refines assms by blast
next
  case (NoteList n off)
  then show ?thesis using note_list_refines assms by blast
next
  case (NoteGet i)
  then show ?thesis using note_get_refines assms by blast
next
  case (NoteUpdate i t b)
  then show ?thesis using note_update_refines assms by blast
next
  case (NoteDel i)
  then show ?thesis using note_del_refines assms by blast
next
  case Counts
  then show ?thesis using counts_refines assms by blast
qed

lemma store_do_safe:
  assumes "table_inv (view db)" "call_args call" "0 < cap" "store_do sq now cap call (Some db) = (rep, st')"
  shows "\<exists>db'. st' = Some db' \<and> table_inv (view db') \<and> note_seq (view db) \<le> note_seq (view db') \<and>
    (\<forall>i. rep = NewId i \<longrightarrow> note_seq (view db) < i \<and> i = note_seq (view db'))"
proof (cases "call = Counts \<or> (\<exists>n off. call = NoteList n off)")
  case True
  then have "(\<exists>db'. st' = Some db' \<and> view db' = view db) \<and> (\<forall>i. rep \<noteq> NewId i)"
    using assms(4) note_list_frame counts_frame by blast
  then show ?thesis using assms(1) by auto
next
  case False
  then obtain db' where db': "st' = Some db'" and
    "call_spec now cap (view db) call rep (view db') \<or> rep = Failed API_ERR_INTERNAL \<and> view db' = view db"
    using store_do_refines [OF assms] unfolding refines_def by blast
  then consider (spec) "call_spec now cap (view db) call rep (view db')"
    | (fail) "rep = Failed API_ERR_INTERNAL" "view db' = view db" by blast
  then show ?thesis
  proof cases
    case spec
    have "rep = NewId i \<Longrightarrow> note_seq (view db) < i \<and> i = note_seq (view db')" for i
      using spec by (cases call) (auto simp: Let_def split: if_splits option.splits)
    then show ?thesis using db' call_spec_keeps [OF spec assms(1,2)] by blast
  qed (use db' assms(1) in auto)
qed

lemma store_runs_safe:
  "table_inv (view db) \<Longrightarrow> \<forall>(now, cap, call) \<in> set cs. 0 < cap \<and> call_args call \<Longrightarrow>
   store_runs sq cs (Some db) = (reps, st') \<Longrightarrow>
   \<exists>db'. st' = Some db' \<and> table_inv (view db') \<and> note_seq (view db) \<le> note_seq (view db') \<and>
     sorted_wrt (<) (new_ids reps) \<and> (\<forall>i \<in> set (new_ids reps). note_seq (view db) < i \<and> i \<le> note_seq (view db'))"
proof (induction cs arbitrary: db reps)
  case (Cons c cs)
  obtain now cap call where c: "c = (now, cap, call)" by (cases c)
  from Cons.prems(3) obtain rep st1 reps' where do: "store_do sq now cap call (Some db) = (rep, st1)"
    and rest: "store_runs sq cs st1 = (reps', st')" and reps: "reps = rep # reps'"
    by (auto simp: c split: prod.splits)
  obtain db1 where db1: "st1 = Some db1" "table_inv (view db1)" "note_seq (view db) \<le> note_seq (view db1)"
    "\<forall>i. rep = NewId i \<longrightarrow> note_seq (view db) < i \<and> i = note_seq (view db1)"
    using store_do_safe [OF Cons.prems(1) _ _ do] Cons.prems(2) c by auto
  from Cons.IH [OF db1(2) _ rest [unfolded db1(1)]] Cons.prems(2) obtain db' where
    "st' = Some db'" "table_inv (view db')" "note_seq (view db1) \<le> note_seq (view db')"
    "sorted_wrt (<) (new_ids reps')"
    "\<forall>i \<in> set (new_ids reps'). note_seq (view db1) < i \<and> i \<le> note_seq (view db')" by auto
  with db1 show ?case by (cases rep) (auto simp: reps new_ids_def intro: order_trans dest: order.strict_implies_order)
qed (auto simp: new_ids_def)

end

end
