(* ===== verification/Store_Engine.thy ===== *)
theory Store_Engine
  imports Store_Laws
begin

text \<open>
  The contract the store offers its clients, the locale \<open>map_service\<close>: the keys
  and values behave as one map, whatever the sequence of operations.  The sublocale
  declaration shows that the store's operations keep this contract over any database
  that satisfies \<open>sqlite_laws\<close>.

  Then a database that does: a small engine on association lists, with a fault
  script that says which of its next statements fail.  The properties of the store
  are stated for every database under \<open>sqlite_laws\<close>, and their witnesses run on
  this engine.
\<close>

section \<open>The contract of the key-value store\<close>

datatype map_op = MPut int cstr cstr | MGet cstr | MDel cstr

datatype map_reply = RStatus ApiError | RValue "ApiError + cstr"

fun map_op_ok :: "map_op \<Rightarrow> bool" where
  "map_op_ok (MPut now k v) \<longleftrightarrow> put_check (Some k) (Some v) = API_OK \<and> nonul v"
| "map_op_ok (MGet k) \<longleftrightarrow> store_validate_key (Some k) = API_OK"
| "map_op_ok (MDel k) \<longleftrightarrow> store_validate_key (Some k) = API_OK"

text \<open>The reference: one map.\<close>

fun map_ref :: "map_op \<Rightarrow> (cstr \<rightharpoonup> cstr) \<Rightarrow> map_reply \<times> (cstr \<rightharpoonup> cstr)" where
  "map_ref (MPut now k v) m = (RStatus API_OK, m(k \<mapsto> v))"
| "map_ref (MGet k) m = (RValue (case m k of None \<Rightarrow> Inl API_ERR_NOT_FOUND | Some v \<Rightarrow> Inr v), m)"
| "map_ref (MDel k) m = (RStatus (if m k = None then API_ERR_NOT_FOUND else API_OK), m(k := None))"

fun map_refs :: "map_op list \<Rightarrow> (cstr \<rightharpoonup> cstr) \<Rightarrow> map_reply list" where
  "map_refs [] m = []"
| "map_refs (c # cs) m = fst (map_ref c m) # map_refs cs (snd (map_ref c m))"

fun map_do ::
  "(int \<Rightarrow> 's \<Rightarrow> cstr \<Rightarrow> cstr \<Rightarrow> ApiError \<times> 's) \<Rightarrow> ('s \<Rightarrow> cstr \<Rightarrow> (ApiError + cstr) \<times> 's) \<Rightarrow>
   ('s \<Rightarrow> cstr \<Rightarrow> ApiError \<times> 's) \<Rightarrow> map_op \<Rightarrow> 's \<Rightarrow> map_reply \<times> 's" where
  "map_do put get del (MPut now k v) s = map_prod RStatus (\<lambda>s. s) (put now s k v)"
| "map_do put get del (MGet k) s = map_prod RValue (\<lambda>s. s) (get s k)"
| "map_do put get del (MDel k) s = map_prod RStatus (\<lambda>s. s) (del s k)"

fun map_runs ::
  "(int \<Rightarrow> 's \<Rightarrow> cstr \<Rightarrow> cstr \<Rightarrow> ApiError \<times> 's) \<Rightarrow> ('s \<Rightarrow> cstr \<Rightarrow> (ApiError + cstr) \<times> 's) \<Rightarrow>
   ('s \<Rightarrow> cstr \<Rightarrow> ApiError \<times> 's) \<Rightarrow> map_op list \<Rightarrow> 's \<Rightarrow> map_reply list" where
  "map_runs put get del [] s = []"
| "map_runs put get del (c # cs) s =
     (case map_do put get del c s of (rep, s') \<Rightarrow> rep # map_runs put get del cs s')"

locale map_service =
  fixes put :: "int \<Rightarrow> 's \<Rightarrow> cstr \<Rightarrow> cstr \<Rightarrow> ApiError \<times> 's"
    and get :: "'s \<Rightarrow> cstr \<Rightarrow> (ApiError + cstr) \<times> 's"
    and del :: "'s \<Rightarrow> cstr \<Rightarrow> ApiError \<times> 's"
    and lookup :: "'s \<Rightarrow> cstr \<rightharpoonup> cstr"
    and good :: "'s \<Rightarrow> bool"
  assumes put_law: "good s \<Longrightarrow> map_op_ok (MPut now k v) \<Longrightarrow>
      \<exists>s'. put now s k v = (API_OK, s') \<and> good s' \<and> lookup s' = (lookup s)(k \<mapsto> v)"
    and get_law: "good s \<Longrightarrow> map_op_ok (MGet k) \<Longrightarrow>
      \<exists>s'. get s k = (case lookup s k of None \<Rightarrow> Inl API_ERR_NOT_FOUND | Some v \<Rightarrow> Inr v, s') \<and>
        good s' \<and> lookup s' = lookup s"
    and del_law: "good s \<Longrightarrow> map_op_ok (MDel k) \<Longrightarrow>
      \<exists>s'. del s k = (if lookup s k = None then API_ERR_NOT_FOUND else API_OK, s') \<and>
        good s' \<and> lookup s' = (lookup s)(k := None)"
begin

lemma map_do_ref:
  assumes "good s" "map_op_ok c"
  shows "\<exists>s'. map_do put get del c s = (fst (map_ref c (lookup s)), s') \<and> good s' \<and>
    lookup s' = snd (map_ref c (lookup s))"
proof (cases c)
  case (MPut now k v)
  then show ?thesis using put_law [OF assms(1), of now k v] assms(2) by auto
next
  case (MGet k)
  then show ?thesis using get_law [OF assms(1), of k] assms(2) by auto
next
  case (MDel k)
  then show ?thesis using del_law [OF assms(1), of k] assms(2) by auto
qed

lemma map_runs_ref:
  "good s \<Longrightarrow> list_all map_op_ok cs \<Longrightarrow> map_runs put get del cs s = map_refs cs (lookup s)"
proof (induction cs arbitrary: s)
  case (Cons c cs)
  then obtain s' where "map_do put get del c s = (fst (map_ref c (lookup s)), s')" "good s'"
    "lookup s' = snd (map_ref c (lookup s))" using map_do_ref by fastforce
  with Cons show ?case by simp
qed simp

end

section \<open>The store keeps the contract\<close>

definition kv_lookup :: "('db \<Rightarrow> tables) \<Rightarrow> 'db option \<Rightarrow> cstr \<rightharpoonup> cstr" where
  "kv_lookup view st k = (case st of None \<Rightarrow> None | Some db \<Rightarrow> map_option fst (kv_tab (view db) k))"

definition store_good :: "('db \<Rightarrow> tables) \<Rightarrow> ('db \<Rightarrow> bool) \<Rightarrow> 'db option \<Rightarrow> bool" where
  "store_good view up st \<longleftrightarrow>
     (\<exists>db. st = Some db \<and> up db \<and> table_inv (view db) \<and> note_seq (view db) < LONG_MAX)"

context sqlite_laws
begin

lemma store_do_good:
  assumes "store_good view up st" "call_args call" "0 < cap" "store_do sq now cap call st = (rep, st')"
  shows "\<exists>db db'. st = Some db \<and> st' = Some db' \<and> up db' \<and> table_inv (view db') \<and>
    call_spec now cap (view db) call rep (view db')"
proof -
  obtain db where db: "st = Some db" "up db" "table_inv (view db)" "note_seq (view db) < LONG_MAX"
    using assms(1) by (auto simp: store_good_def)
  have "refines view up now cap db call rep st'"
    using store_do_refines [OF db(3) assms(2,3)] assms(4) db(1,2) by blast
  then obtain db' where "st' = Some db'" "up db'" "call_spec now cap (view db) call rep (view db')"
    using db(2,4) by (auto simp: refines_def)
  then show ?thesis using db(1,3) call_spec_keeps(1) assms(2) by blast
qed

end

sublocale sqlite_laws \<subseteq> kv: map_service
  "\<lambda>now st k v. store_kv_put sq now st (Some k) (Some v)"
  "\<lambda>st k. store_kv_get sq st (Some k) (Some (STORE_MAX_VALUE_LEN + 1))"
  "\<lambda>st k. store_kv_del sq st (Some k)"
  "kv_lookup view" "store_good view up"
proof (unfold_locales, goal_cases)
  case (1 st now k v)
  obtain e st' where put: "store_kv_put sq now st (Some k) (Some v) = (e, st')" by fastforce
  then have d: "store_do sq now 1 (KvPut (Some k) (Some v)) st = (reply_status e, st')" by simp
  have "call_args (KvPut (Some k) (Some v))" using 1(2) by simp
  from store_do_good [OF 1(1) this zero_less_one d] obtain db db' where db: "st = Some db" "st' = Some db'" "up db'" "table_inv (view db')"
    "call_spec now 1 (view db) (KvPut (Some k) (Some v)) (reply_status e) (view db')"
    by blast
  then have "e = API_OK" using 1(2) by (auto simp: reply_status_def split: if_splits)
  then show ?case using put db 1 by (auto simp: store_good_def kv_lookup_def fun_eq_iff)
next
  case (2 st k)
  let ?cap = "STORE_MAX_VALUE_LEN + 1"
  obtain r st' where get: "store_kv_get sq st (Some k) (Some ?cap) = (r, st')" by fastforce
  then have d: "store_do sq 0 ?cap (KvGet (Some k)) st = (case_sum Failed Text r, st')" by simp
  from store_do_good [OF 2(1) _ _ d] obtain db db' where db: "st = Some db" "st' = Some db'" "up db'" "table_inv (view db')"
    "call_spec 0 ?cap (view db) (KvGet (Some k)) (case_sum Failed Text r) (view db')"
    by (auto simp del: call_spec.simps)
  have "r = (case kv_lookup view st k of None \<Rightarrow> Inl API_ERR_NOT_FOUND | Some v \<Rightarrow> Inr v)"
  proof (cases "kv_tab (view db) k")
    case (Some p)
    then obtain v t where "kv_tab (view db) k = Some (v, t)" by (cases p) auto
    moreover from this have "length v \<le> STORE_MAX_VALUE_LEN"
      using db(4,5) table_inv_kvD(2) [of "view db"] by auto
    ultimately show ?thesis using db 2(2) by (cases r) (auto simp: kv_lookup_def)
  qed (use db 2(2) in \<open>cases r; auto simp: kv_lookup_def\<close>)
  then show ?case using get db 2(1) by (auto simp: store_good_def kv_lookup_def fun_eq_iff)
next
  case (3 st k)
  obtain e st' where del: "store_kv_del sq st (Some k) = (e, st')" by fastforce
  then have d: "store_do sq 0 1 (KvDel (Some k)) st = (reply_status e, st')" by simp
  from store_do_good [OF 3(1) _ zero_less_one d] obtain db db' where db: "st = Some db" "st' = Some db'" "up db'" "table_inv (view db')"
    "call_spec 0 1 (view db) (KvDel (Some k)) (reply_status e) (view db')"
    by (auto simp del: call_spec.simps)
  then have "e = (if kv_lookup view st k = None then API_ERR_NOT_FOUND else API_OK)"
    using 3(2) by (auto simp: kv_lookup_def reply_status_def split: if_splits)
  then show ?case using del db 3 by (auto simp: store_good_def kv_lookup_def fun_eq_iff)
qed

context sqlite_laws
begin

lemma kv_runs_ref:
  "store_good view up st \<Longrightarrow> list_all map_op_ok cs \<Longrightarrow>
   map_runs (\<lambda>now st k v. store_kv_put sq now st (Some k) (Some v))
     (\<lambda>st k. store_kv_get sq st (Some k) (Some (STORE_MAX_VALUE_LEN + 1)))
     (\<lambda>st k. store_kv_del sq st (Some k)) cs st = map_refs cs (kv_lookup view st)"
  by (rule kv.map_runs_ref)

end

text \<open>Listing by a prefix without wildcard characters.\<close>

definition plain_prefix :: "cstr \<Rightarrow> bool" where
  "plain_prefix p \<longleftrightarrow> list_all (\<lambda>c. key_char_ok c \<and> c \<noteq> CHR ''_'') p \<and> length p \<le> STORE_MAX_KEY_LEN"

lemma like_match_percent: "like_match ''%'' s"
  by (induction s) auto

lemma like_match_prefix:
  "list_all (\<lambda>c. key_char_ok c \<and> c \<noteq> CHR ''_'') p \<Longrightarrow>
   like_match (p @ ''%'') s \<longleftrightarrow> prefix (map tolower p) (map tolower s)"
proof (induction p arbitrary: s)
  case Nil
  then show ?case by (simp add: like_match_percent)
next
  case (Cons c p)
  have "key_char_ok c" and c: "c \<noteq> CHR ''_''" using Cons.prems by simp_all
  then have "c \<noteq> CHR ''%''" "c \<noteq> BSLASH" by (auto simp: key_char_ok_def)
  with c Cons show ?case by (cases s) auto
qed

lemma matching_keys_plain:
  "plain_prefix p \<Longrightarrow>
   matching_keys tb (list_pattern p) =
     filter (\<lambda>k. prefix (map tolower p) (map tolower k)) (sorted_list_of_set (dom (kv_tab tb)))"
proof -
  assume p: "plain_prefix p"
  then have "list_pattern p = p @ ''%''" by (auto simp: list_pattern_def snprintf_buf_def plain_prefix_def)
  moreover have "like_match (p @ ''%'') = (\<lambda>k. prefix (map tolower p) (map tolower k))"
    using p by (simp add: fun_eq_iff plain_prefix_def like_match_prefix)
  ultimately show ?thesis by (simp add: matching_keys_def)
qed

lemma plain_prefix_args: "plain_prefix p \<Longrightarrow> call_args (KvList p n)"
  by (induction p) (auto simp: plain_prefix_def is_ascii_def dest: key_char_ok_ascii key_char_ok_plain)

section \<open>A database engine\<close>

text \<open>The next call fails when the head of \<open>rd_faults\<close> is \<open>True\<close>; an empty
  script never fails.\<close>

record rdb =
  rd_kv :: "(cstr \<times> cstr \<times> int) list"
  rd_notes :: "(int \<times> note_row) list"
  rd_seq :: int
  rd_faults :: "bool list"

abbreviation (input) SQLITE_FULL :: int where "SQLITE_FULL \<equiv> 13"

definition empty_rdb :: rdb where
  "empty_rdb = \<lparr>rd_kv = [], rd_notes = [], rd_seq = 0, rd_faults = []\<rparr>"

definition engine_view :: "rdb \<Rightarrow> tables" where
  "engine_view db = \<lparr>kv_tab = map_of (rd_kv db), note_tab = map_of (rd_notes db), note_seq = rd_seq db\<rparr>"

definition engine_up :: "rdb \<Rightarrow> bool" where
  "engine_up db \<longleftrightarrow> True \<notin> set (rd_faults db)"

definition eng_keys :: "rdb \<Rightarrow> cstr list" where
  "eng_keys db = sort (remdups (map fst (rd_kv db)))"

definition eng_ids :: "rdb \<Rightarrow> int list" where
  "eng_ids db = sort (remdups (map fst (rd_notes db)))"

definition eng_note_cols :: "rdb \<Rightarrow> int \<Rightarrow> sqlval list" where
  "eng_note_cols db i = (case map_of (rd_notes db) i of
       None \<Rightarrow> []
     | Some n \<Rightarrow> [SInt i, SText (nr_title n), SText (nr_body n), SInt (nr_created n), SInt (nr_updated n)])"

definition eng_select :: "rdb \<Rightarrow> cstr \<Rightarrow> sqlval list \<Rightarrow> sqlval list list" where
  "eng_select db sql args =
     (if sql = kv_get_sql then
        (case args of [SText k] \<Rightarrow> (case map_of (rd_kv db) k of None \<Rightarrow> [] | Some (v, _) \<Rightarrow> [ [SText v] ]) | _ \<Rightarrow> [])
      else if sql = kv_list_sql then
        (case args of
           [SText pat, SInt n] \<Rightarrow>
             map (\<lambda>k. [SText k, SText (fst (the (map_of (rd_kv db) k)))]) (take (nat n) (filter (like_match pat) (eng_keys db)))
         | _ \<Rightarrow> [])
      else if sql = kv_count_sql then [ [SInt (int (length (eng_keys db)))] ]
      else if sql = note_count_sql then [ [SInt (int (length (eng_ids db)))] ]
      else if sql = note_list_sql then
        (case args of
           [SInt n, SInt off] \<Rightarrow> map (eng_note_cols db) (take (nat n) (drop (nat off) (eng_ids db)))
         | _ \<Rightarrow> [])
      else if sql = note_get_sql then
        (case args of [SInt i] \<Rightarrow> if map_of (rd_notes db) i = None then [] else [eng_note_cols db i] | _ \<Rightarrow> [])
      else [])"

text \<open>A change: the database after it, the change count and the row id;
  \<open>None\<close> when the table is full.\<close>

definition eng_change :: "rdb \<Rightarrow> cstr \<Rightarrow> sqlval list \<Rightarrow> (rdb \<times> int \<times> int) option" where
  "eng_change db sql args =
     (if sql = kv_put_sql then
        (case args of
           [SText k, SText v, SInt t] \<Rightarrow> Some (db\<lparr>rd_kv := AList.update k (v, t) (rd_kv db)\<rparr>, 1, 0)
         | _ \<Rightarrow> Some (db, 0, 0))
      else if sql = kv_del_sql then
        (case args of
           [SText k] \<Rightarrow> Some (db\<lparr>rd_kv := AList.delete k (rd_kv db)\<rparr>,
             if map_of (rd_kv db) k = None then 0 else 1, 0)
         | _ \<Rightarrow> Some (db, 0, 0))
      else if sql = note_create_sql then
        (case args of
           [SText t, SText b, SInt c, SInt u] \<Rightarrow>
             (let i = max 0 (rd_seq db) + 1
              in if i > LONG_MAX then None
                 else Some (db\<lparr>rd_notes := AList.update i
                        \<lparr>nr_title = t, nr_body = b, nr_created = c, nr_updated = u\<rparr> (rd_notes db),
                      rd_seq := i\<rparr>, 1, i))
         | _ \<Rightarrow> Some (db, 0, 0))
      else if sql = note_update_sql then
        (case args of
           [SText t, SText b, SInt u, SInt i] \<Rightarrow>
             (case map_of (rd_notes db) i of
                None \<Rightarrow> Some (db, 0, 0)
              | Some n \<Rightarrow> Some (db\<lparr>rd_notes := AList.update i
                     (n\<lparr>nr_title := t, nr_body := b, nr_updated := u\<rparr>) (rd_notes db)\<rparr>, 1, 0))
         | _ \<Rightarrow> Some (db, 0, 0))
      else if sql = note_del_sql then
        (case args of
           [SInt i] \<Rightarrow> Some (db\<lparr>rd_notes := AList.delete i (rd_notes db)\<rparr>,
             if map_of (rd_notes db) i = None then 0 else 1, 0)
         | _ \<Rightarrow> Some (db, 0, 0))
      else Some (db, 0, 0))"

definition eng_run :: "rdb \<Rightarrow> cstr \<Rightarrow> sqlval list \<Rightarrow> rdb sql_outcome" where
  "eng_run db0 sql args =
     (let db = db0\<lparr>rd_faults := tl (rd_faults db0)\<rparr>;
          failed = \<lparr>so_rows = [], so_rc = SQLITE_FULL, so_db = db, so_changes = 0, so_rowid = 0\<rparr>
      in if rd_faults db0 \<noteq> [] \<and> hd (rd_faults db0) then failed
         else if List.member changing_sqls sql then
           (case eng_change db sql args of
              None \<Rightarrow> failed
            | Some (db', changes, rowid) \<Rightarrow>
                \<lparr>so_rows = [], so_rc = SQLITE_DONE, so_db = db', so_changes = changes, so_rowid = rowid\<rparr>)
         else \<lparr>so_rows = eng_select db sql args, so_rc = SQLITE_DONE, so_db = db, so_changes = 0, so_rowid = 0\<rparr>)"

definition engine :: "rdb sqlite3" where
  "engine = \<lparr>sq_open = (\<lambda>path. (SQLITE_OK, empty_rdb)), sq_errmsg = (\<lambda>db. ''not an error''),
     sq_exec = (\<lambda>db sql. (SQLITE_OK, db)), sq_close = (\<lambda>db. db), sq_prepare = (\<lambda>db sql. SQLITE_OK), sq_run = eng_run,
     sq_column_text = (\<lambda>v. case v of SText s \<Rightarrow> Some s | _ \<Rightarrow> None),
     sq_column_int64 = (\<lambda>v. case v of SInt i \<Rightarrow> i | _ \<Rightarrow> 0)\<rparr>"

lemma sql_distinct: "distinct (changing_sqls @ query_sqls)"
  by code_simp

lemma sql_distinct_rev: "distinct (rev (changing_sqls @ query_sqls))"
  using sql_distinct by (simp only: distinct_rev)

lemmas sql_neq = sql_distinct [unfolded sql_sets, simplified] sql_distinct_rev [unfolded sql_sets, simplified]

lemma sql_kind [simp]: "sql \<in> set query_sqls \<Longrightarrow> sql \<notin> set changing_sqls"
  using sql_distinct by auto

lemma eng_keys_dom: "eng_keys db = sorted_list_of_set (dom (map_of (rd_kv db)))"
  by (simp add: eng_keys_def dom_map_of_conv_image_fst flip: sorted_list_of_set_sort_remdups)

lemma eng_ids_dom: "eng_ids db = sorted_list_of_set (dom (map_of (rd_notes db)))"
  by (simp add: eng_ids_def dom_map_of_conv_image_fst flip: sorted_list_of_set_sort_remdups)

lemma eng_select_answers:
  "eng_select db kv_get_sql [SText k] = kv_get_answer (engine_view db) k"
  "eng_select db kv_list_sql [SText pat, SInt n] = kv_list_answer (engine_view db) pat n"
  "eng_select db kv_count_sql [] = kv_count_answer (engine_view db)"
  "eng_select db note_count_sql [] = note_count_answer (engine_view db)"
  "eng_select db note_get_sql [SInt i] = note_get_answer (engine_view db) i"
proof -
  note defs = eng_select_def engine_view_def eng_keys_dom eng_ids_dom
  note d = sql_neq
  show "eng_select db kv_get_sql [SText k] = kv_get_answer (engine_view db) k"
    by (simp add: defs kv_get_answer_def)
  show "eng_select db kv_list_sql [SText pat, SInt n] = kv_list_answer (engine_view db) pat n"
    using d by (simp add: defs kv_list_answer_def matching_keys_def kv_row_def)
  show "eng_select db kv_count_sql [] = kv_count_answer (engine_view db)"
    using d by (simp add: defs kv_count_answer_def length_sorted_list_of_set finite_dom_map_of)
  show "eng_select db note_count_sql [] = note_count_answer (engine_view db)"
    using d by (simp add: defs note_count_answer_def length_sorted_list_of_set finite_dom_map_of)
  show "eng_select db note_get_sql [SInt i] = note_get_answer (engine_view db) i"
    using d by (auto simp: defs note_get_answer_def eng_note_cols_def note_cols_def Let_def)
qed

lemma eng_note_list_answers:
  "eng_select db note_list_sql [SInt n, SInt off] = note_list_answer (engine_view db) n off"
proof -
  have "eng_note_cols db i = note_cols (engine_view db) i" if "i \<in> set (eng_ids db)" for i
    using that finite_dom_map_of [of "rd_notes db"]
    by (auto simp: eng_ids_dom eng_note_cols_def note_cols_def engine_view_def Let_def)
  then have "map (eng_note_cols db) xs = map (note_cols (engine_view db)) xs" if "set xs \<subseteq> set (eng_ids db)" for xs
    using that by (meson map_cong subsetD)
  moreover have "set (take (nat n) (drop (nat off) (eng_ids db))) \<subseteq> set (eng_ids db)"
    by (meson in_set_dropD in_set_takeD subsetI)
  ultimately show ?thesis using sql_neq
    by (simp add: eng_select_def note_list_answer_def note_ids_def eng_ids_dom engine_view_def)
qed

text \<open>How a statement of either kind runs.\<close>

lemma eng_run_query:
  assumes "sql \<in> set query_sqls" and "engine_view db = tb" and "eng_select db sql args = ans"
  shows "answers (eng_run db sql args) ans" "engine_view (so_db (eng_run db sql args)) = tb"
proof -
  have cols: "eng_note_cols (db\<lparr>rd_faults := f\<rparr>) = eng_note_cols db" for f
    by (simp add: eng_note_cols_def fun_eq_iff)
  have sel: "rd_kv (db\<lparr>rd_faults := f\<rparr>) = rd_kv db" "rd_notes (db\<lparr>rd_faults := f\<rparr>) = rd_notes db" for f
    by simp_all
  have "eng_select (db\<lparr>rd_faults := f\<rparr>) sql args = eng_select db sql args" for f
    unfolding eng_select_def eng_keys_def eng_ids_def cols sel by (rule refl)
  then show "answers (eng_run db sql args) ans" "engine_view (so_db (eng_run db sql args)) = tb"
    using assms by (auto simp: eng_run_def answers_def engine_view_def Let_def)
qed

lemma eng_change_faults:
  "eng_change db sql args = Some (db', n, i) \<Longrightarrow> rd_faults db' = rd_faults db"
  by (auto simp: eng_change_def Let_def split: if_splits list.splits sqlval.splits option.splits)

lemma eng_run_change:
  assumes "sql \<in> set changing_sqls"
  shows "so_rows (eng_run db sql args) = []"
    and "so_rc (eng_run db sql args) \<noteq> SQLITE_DONE \<Longrightarrow> engine_view (so_db (eng_run db sql args)) = engine_view db"
    and "so_rc (eng_run db sql args) = SQLITE_DONE \<Longrightarrow> \<exists>db' n i.
      eng_change (db\<lparr>rd_faults := tl (rd_faults db)\<rparr>) sql args = Some (db', n, i) \<and>
      eng_run db sql args = \<lparr>so_rows = [], so_rc = SQLITE_DONE, so_db = db', so_changes = n, so_rowid = i\<rparr>"
  using assms by (auto simp: eng_run_def engine_view_def Let_def split: option.splits if_splits)

lemma eng_run_up:
  assumes "engine_up db"
  shows "engine_up (so_db (eng_run db sql args))"
    and "sql \<in> set changing_sqls \<union> set query_sqls \<Longrightarrow> sql \<noteq> note_create_sql \<or> note_seq (engine_view db) < LONG_MAX \<Longrightarrow>
      so_rc (eng_run db sql args) = SQLITE_DONE"
proof -
  let ?db = "db\<lparr>rd_faults := tl (rd_faults db)\<rparr>"
  have nofault: "\<not> (rd_faults db \<noteq> [] \<and> hd (rd_faults db))"
    using assms by (cases "rd_faults db") (auto simp: engine_up_def)
  have up: "True \<notin> set (tl (rd_faults db))"
    using assms by (cases "rd_faults db") (auto simp: engine_up_def)
  then show "engine_up (so_db (eng_run db sql args))"
    by (auto simp: eng_run_def engine_up_def Let_def dest: eng_change_faults split: option.splits)
  assume "sql \<in> set changing_sqls \<union> set query_sqls" "sql \<noteq> note_create_sql \<or> note_seq (engine_view db) < LONG_MAX"
  then have "eng_change ?db sql args \<noteq> None"
    by (auto simp: eng_change_def engine_view_def Let_def max_def split: list.splits sqlval.splits option.splits)
  then show "so_rc (eng_run db sql args) = SQLITE_DONE"
    using nofault by (auto simp: eng_run_def Let_def split: option.splits)
qed

lemma eng_change_sqls [simp]:
  "eng_change db kv_put_sql [SText k, SText v, SInt u] = Some (db\<lparr>rd_kv := AList.update k (v, u) (rd_kv db)\<rparr>, 1, 0)"
  "eng_change db kv_del_sql [SText k] = Some (db\<lparr>rd_kv := AList.delete k (rd_kv db)\<rparr>,
     if map_of (rd_kv db) k = None then 0 else 1, 0)"
  "eng_change db note_create_sql [SText t, SText b, SInt c, SInt u] =
     (if max 0 (rd_seq db) + 1 > LONG_MAX then None
      else Some (db\<lparr>rd_notes := AList.update (max 0 (rd_seq db) + 1)
             \<lparr>nr_title = t, nr_body = b, nr_created = c, nr_updated = u\<rparr> (rd_notes db),
           rd_seq := max 0 (rd_seq db) + 1\<rparr>, 1, max 0 (rd_seq db) + 1))"
  "eng_change db note_update_sql [SText t, SText b, SInt u, SInt i] =
     (case map_of (rd_notes db) i of
        None \<Rightarrow> Some (db, 0, 0)
      | Some n \<Rightarrow> Some (db\<lparr>rd_notes := AList.update i
             (n\<lparr>nr_title := t, nr_body := b, nr_updated := u\<rparr>) (rd_notes db)\<rparr>, 1, 0))"
  "eng_change db note_del_sql [SInt i] = Some (db\<lparr>rd_notes := AList.delete i (rd_notes db)\<rparr>,
     if map_of (rd_notes db) i = None then 0 else 1, 0)"
  using sql_neq by (simp_all add: eng_change_def Let_def)

lemma engine_view_finite [simp]:
  "finite (dom (kv_tab (engine_view db)))" "finite (dom (note_tab (engine_view db)))"
  by (simp_all add: engine_view_def finite_dom_map_of)

interpretation engine: sqlite_laws engine engine_view engine_up
proof (unfold_locales, goal_cases)
  case (6 db sql args)
  then show ?case by (simp add: engine_def eng_run_up(1))
next
  case (7 db sql args)
  then show ?case by (simp add: engine_def eng_run_up(2))
next
  case (9 sql db args)
  then show ?case using eng_run_query(2) by (simp add: engine_def)
next
  case (10 sql db args)
  then show ?case by (simp add: engine_def eng_run_change(1))
next
  case (11 sql db args)
  then show ?case by (simp add: engine_def eng_run_change(2))
next
  case (12 r db k v u)
  with eng_run_change(3) [of kv_put_sql db "[SText k, SText v, SInt u]"] show ?case
    by (auto simp: engine_def engine_view_def update_conv')
next
  case (13 r db k)
  with eng_run_change(3) [of kv_del_sql db "[SText k]"] show ?case
    by (auto simp: engine_def engine_view_def delete_conv')
next
  case (14 r db t b c u)
  with eng_run_change(3) [of note_create_sql db "[SText t, SText b, SInt c, SInt u]"] show ?case
    by (auto simp: engine_def engine_view_def update_conv' split: if_splits)
next
  case (15 r db t b u i)
  with eng_run_change(3) [of note_update_sql db "[SText t, SText b, SInt u, SInt i]"] show ?case
    by (auto simp: engine_def engine_view_def update_conv' split: option.splits)
next
  case (16 r db i)
  with eng_run_change(3) [of note_del_sql db "[SInt i]"] show ?case
    by (auto simp: engine_def engine_view_def delete_conv')
qed (auto simp: engine_def
      intro: eng_run_query(1) [OF _ refl] eng_select_answers eng_note_list_answers)

lemma engine_laws: "sqlite_laws engine engine_view engine_up"
  by (rule engine.sqlite_laws_axioms)

lemma empty_rdb_good [simp]: "store_good engine_view engine_up (Some empty_rdb)"
  by (simp add: store_good_def empty_rdb_def engine_up_def engine_view_def table_inv_def)

section \<open>Properties\<close>

text \<open>C5: refinement.  Over every database that satisfies \<open>sqlite_laws\<close> and does
  not fail, each public store operation returns what the specification
  \<open>call_spec\<close> says of the tables, leaves the tables the specification says, and
  keeps the table invariant.\<close>

theorem store_refines_spec:
  assumes "sqlite_laws sq view up" and "store_good view up st" and "call_args call" and "0 < cap"
    and "store_do sq now cap call st = (rep, st')"
  shows "\<exists>db db'. st = Some db \<and> st' = Some db' \<and> up db' \<and> table_inv (view db') \<and>
    call_spec now cap (view db) call rep (view db')"
  using sqlite_laws.store_do_good [OF assms] .

theorem store_refines_spec_witness:
  "\<exists>db db'. Some empty_rdb = Some db \<and>
     snd (store_do engine 7 16 (KvPut (Some ''k'') (Some ''v'')) (Some empty_rdb)) = Some db' \<and>
     engine_up db' \<and> table_inv (engine_view db') \<and>
     call_spec 7 16 (engine_view db) (KvPut (Some ''k'') (Some ''v''))
       (fst (store_do engine 7 16 (KvPut (Some ''k'') (Some ''v'')) (Some empty_rdb))) (engine_view db')"
  by (rule store_refines_spec [OF engine_laws empty_rdb_good _ _ prod.collapse [symmetric]]) simp_all


definition faulty_rdb :: rdb where
  "faulty_rdb = \<lparr>rd_kv = [(''k'', ''v'', 1)], rd_notes = [], rd_seq = 0, rd_faults = [True, True]\<rparr>"



text \<open>C38: the counting operation hides failures.  Once its two statements were prepared,
  \<open>store_counts\<close> returns success whatever their execution does: a count is the number
  of entries if its row arrived, and 0 if the step failed, so that the caller cannot tell an
  empty table from a database that did not answer.  The tables stay as they are.\<close>

theorem store_counts_hides_failure:
  assumes "sqlite_laws sq view up"
    and "sq_prepare sq db kv_count_sql = SQLITE_OK"
    and "sq_prepare sq (so_db (sq_run sq db kv_count_sql [])) note_count_sql = SQLITE_OK"
  shows "\<exists>db'. store_counts sq (Some db) =
      (Inr (if so_rows (sq_run sq db kv_count_sql []) = [] then 0 else int (card (dom (kv_tab (view db)))),
            if so_rows (sq_run sq (so_db (sq_run sq db kv_count_sql [])) note_count_sql []) = [] then 0
            else int (card (dom (note_tab (view db))))), Some db') \<and> view db' = view db"
  by (rule sqlite_laws.counts_reported [OF assms])

theorem store_counts_hides_failure_witness:
  "\<exists>db'. store_counts engine (Some faulty_rdb) = (Inr (0, 0), Some db') \<and> engine_view db' = engine_view faulty_rdb \<and>
     kv_tab (engine_view faulty_rdb) ''k'' = Some (''v'', 1)"
proof -
  have "so_rows (sq_run engine faulty_rdb kv_count_sql []) = []"
    "so_rows (sq_run engine (so_db (sq_run engine faulty_rdb kv_count_sql [])) note_count_sql []) = []"
    by code_simp+
  moreover have "sq_prepare engine db sql = SQLITE_OK" for db sql by (simp add: engine_def)
  moreover have "kv_tab (engine_view faulty_rdb) ''k'' = Some (''v'', 1)"
    by (simp add: engine_view_def faulty_rdb_def)
  ultimately show ?thesis using store_counts_hides_failure [OF engine_laws, of faulty_rdb] by simp
qed



text \<open>C21: the key-value half of the store is one map: the replies of any sequence of
  valid puts, gets and deletes are those of a map that starts with the stored
  values; in particular a get returns the value of the last put of its key unless a
  delete came after it.\<close>

theorem kv_store_is_a_map:
  assumes "sqlite_laws sq view up" and "store_good view up st" and "list_all map_op_ok cs"
  shows "map_runs (\<lambda>now st k v. store_kv_put sq now st (Some k) (Some v))
     (\<lambda>st k. store_kv_get sq st (Some k) (Some (STORE_MAX_VALUE_LEN + 1)))
     (\<lambda>st k. store_kv_del sq st (Some k)) cs st = map_refs cs (kv_lookup view st)"
  using sqlite_laws.kv_runs_ref [OF assms] .

theorem kv_store_is_a_map_witness:
  "map_runs (\<lambda>now st k v. store_kv_put engine now st (Some k) (Some v))
     (\<lambda>st k. store_kv_get engine st (Some k) (Some (STORE_MAX_VALUE_LEN + 1)))
     (\<lambda>st k. store_kv_del engine st (Some k))
     [MPut 1 ''a'' ''x'', MPut 2 ''a'' ''y'', MGet ''a'', MDel ''a'', MGet ''a''] (Some empty_rdb) =
   [RStatus API_OK, RStatus API_OK, RValue (Inr ''y''), RStatus API_OK, RValue (Inl API_ERR_NOT_FOUND)]"
  by (subst kv_store_is_a_map [OF engine_laws empty_rdb_good])
    (simp_all add: put_check_def store_validate_key_def validate_value_def key_char_ok_def)

text \<open>C25: listing keys by a prefix of letters, digits, dots and dashes returns, in byte
  order and cut at the limit, exactly the stored keys that start with the prefix when
  letter case is ignored, each with its value escaped; the array is complete or the
  call is an error.\<close>

theorem store_kv_list_by_prefix:
  assumes "sqlite_laws sq view up" and "store_good view up (Some db)" and "plain_prefix p"
    and "1 \<le> n" and "n \<le> STORE_MAX_LIST"
    and "ps = kv_pairs (view db) (take (nat n)
      (filter (\<lambda>k. prefix (map tolower p) (map tolower k)) (sorted_list_of_set (dom (kv_tab (view db))))))"
    and "list_all kv_pair_ok ps" and "length (kv_json ps) < cap"
  shows "fst (store_kv_list sq (Some db) (Some p) n (Some cap)) = Inr (kv_json ps)"
proof -
  obtain r st' where r: "store_kv_list sq (Some db) (Some p) n (Some cap) = (r, st')" by fastforce
  then have d: "store_do sq 0 cap (KvList p n) (Some db) = (case_sum Failed Text r, st')" by simp
  have "0 < cap" using assms(8) by linarith
  from sqlite_laws.store_do_good [OF assms(1,2) plain_prefix_args [OF assms(3)] this d]
  have "case_sum Failed Text r = Text (kv_json ps)"
    using assms(4-8) by (auto simp: matching_keys_plain [OF assms(3)] Let_def)
  then show ?thesis using r by (cases r) auto
qed

definition sample_rdb :: rdb where
  "sample_rdb = \<lparr>rd_kv = [(''user.b'', ''2'', 1), (''User.A'', ''1'', 1), (''other'', ''3'', 1)], rd_notes = [],
     rd_seq = 0, rd_faults = []\<rparr>"

lemma sample_rdb_good: "store_good engine_view engine_up (Some sample_rdb)"
  by (auto simp: store_good_def sample_rdb_def engine_up_def engine_view_def table_inv_def
      store_validate_key_def validate_value_def key_char_ok_def split: if_splits)

lemma sample_rdb_keys:
  "sorted_list_of_set (dom (kv_tab (engine_view sample_rdb))) = [''User.A'', ''other'', ''user.b'']"
proof -
  have "eng_keys sample_rdb = [''User.A'', ''other'', ''user.b'']" by code_simp
  then show ?thesis by (simp add: eng_keys_dom engine_view_def)
qed

theorem store_kv_list_by_prefix_witness:
  "fst (store_kv_list engine (Some sample_rdb) (Some ''user.'') 10 (Some 4096)) =
     Inr (kv_json [(''User.A'', ''1''), (''user.b'', ''2'')])"
proof -
  have keys: "filter (\<lambda>k. prefix (map tolower ''user.'') (map tolower k)) [''User.A'', ''other'', ''user.b''] =
      [''User.A'', ''user.b'']" by code_simp
  have ps: "[(''User.A'', ''1''), (''user.b'', ''2'')] = kv_pairs (engine_view sample_rdb) (take (nat 10)
      (filter (\<lambda>k. prefix (map tolower ''user.'') (map tolower k)) [''User.A'', ''other'', ''user.b'']))"
    unfolding keys by (simp add: kv_pairs_def engine_view_def sample_rdb_def)
  have ok: "plain_prefix ''user.''" "list_all kv_pair_ok [(''User.A'', ''1''), (''user.b'', ''2'')]"
    "length (kv_json [(''User.A'', ''1''), (''user.b'', ''2'')]) < 4096" by code_simp+
  show ?thesis
    by (rule store_kv_list_by_prefix [OF engine_laws sample_rdb_good ok(1) _ _ ps [folded sample_rdb_keys] ok(2,3)])
      simp_all
qed

text \<open>The prefix is a \<open>LIKE\<close> pattern: an underscore in it, a legal key
  character, matches any character, so the listing by \<open>a_b\<close> also returns the key
  \<open>axb\<close>, which does not start with it.\<close>

theorem store_kv_list_underscore_wildcard:
  "fst (store_kv_list engine
     (Some \<lparr>rd_kv = [(''axb'', ''1'', 1)], rd_notes = [], rd_seq = 0, rd_faults = []\<rparr>) (Some ''a_b'') 10 (Some 4096)) =
   Inr (kv_json [(''axb'', ''1'')]) \<and> \<not> prefix ''a_b'' ''axb''"
  by code_simp

end
