(* ===== verification/Api_Laws.thy ===== *)
theory Api_Laws
  imports Api Store_Engine
begin

text \<open>
  What the API promises: one framed response per request whose status agrees with the
  returned error, reads that change nothing, writes that only an authorized request
  can make, and the round trips of the echo, key and note routes.
\<close>

section \<open>One response per request\<close>

text \<open>The connection received exactly one whole response, whose status agrees with the
  returned error.\<close>

definition one_response :: "conn \<Rightarrow> 'db handled \<Rightarrow> bool" where
  "one_response c h \<longleftrightarrow>
     (case h of (err, c', st') \<Rightarrow>
        (\<exists>status ct body allow. c' = responded status ct body allow c \<and> CR \<notin> set ct \<and>
           (case allow of None \<Rightarrow> True | Some a \<Rightarrow> CR \<notin> set a) \<and>
           (if err = API_OK then status \<in> {200, 201, 204} else status = api_error_status err)))"

lemma one_response_fail: "cn_send c = [] \<Longrightarrow> err \<noteq> API_OK \<Longrightarrow> one_response c (fail_with err d c st)"
  by (force simp: one_response_def fail_with_def http_respond_error_healthy error_allow_def)

text \<open>In terms of the bytes sent: one complete response and nothing else.\<close>

lemma one_response_bytes:
  assumes "one_response c (err, c', st')"
  shows "\<exists>status bs. cn_out c' = cn_out c @ bs \<and> cn_in c' = cn_in c \<and> is_response status bs \<and>
    (\<forall>s x z. bs = x @ z \<longrightarrow> is_response s x \<longrightarrow> z = []) \<and>
    (if err = API_OK then status \<in> {200, 201, 204} else status = api_error_status err)"
proof -
  obtain status ct body allow where c': "c' = responded status ct body allow c" and
    cr: "CR \<notin> set ct" "case allow of None \<Rightarrow> True | Some a \<Rightarrow> CR \<notin> set a" and
    status: "if err = API_OK then status \<in> {200, 201, 204} else status = api_error_status err"
    using assms unfolding one_response_def by auto
  have r: "is_response status (render_response status ct body allow)" using cr by (rule responded_is_response)
  show ?thesis
  proof (intro exI conjI allI impI)
    show "cn_out c' = cn_out c @ render_response status ct body allow" "cn_in c' = cn_in c" using c' by simp_all
    show "z = []" if "render_response status ct body allow = x @ z" "is_response s x" for s x z
      using response_not_extended [OF r [unfolded that(1)] that(2)] .
  qed (fact r status)+
qed

lemma http_respond_one:
  assumes "cn_send c = []" "status \<in> {200, 201, 204}" "length ct \<le> 64" "CR \<notin> set ct" "length b < 10 ^ 10"
  shows "one_response c (finish (http_respond status (Some ct) (Some b) (length b) None c) st)"
proof -
  have "snprintf_fits 1024 (response_header status ct (length b) None)"
    using assms by (intro response_header_fits) auto
  from http_respond_healthy(1) [OF assms(1) this] assms(2,4) show ?thesis
    by (force simp: one_response_def finish_def)
qed

lemma one_response_json:
  "cn_send c = [] \<Longrightarrow> status \<in> {200, 201, 204} \<Longrightarrow> length b < 10 ^ 10 \<Longrightarrow>
   one_response c (finish (send_json status (Some b) c) st)"
  unfolding send_json_def using http_respond_one [of c status "''application/json''" b st] by simp

lemma one_response_no_content:
  assumes "cn_send c = []"
  shows "one_response c (finish (send_no_content c) st)"
proof -
  have "snprintf_fits 1024 (response_header 204 ''application/json'' (length ([] :: bytes)) None)"
    by (intro response_header_fits) auto
  from http_respond_healthy(2) [OF assms this] have
    "send_no_content c = (True, responded 204 ''application/json'' [] None c)" by (simp add: send_no_content_def)
  then show ?thesis by (force simp: one_response_def finish_def)
qed

lemma one_response_refuse:
  assumes "cn_send c = []" "length allow \<le> 64" "CR \<notin> set allow"
  shows "one_response c (refuse_method allow c st)"
proof -
  have fits: "snprintf_fits 256 (method_body allow)"
    using assms(2) by (simp add: method_body_def jstr_def snprintf_fits_def)
  then have len: "length (method_body allow) < 256" by (simp add: snprintf_fits_def)
  then have "snprintf_fits 1024 (response_header 405 ''application/json'' (length (method_body allow)) (Some allow))"
    using assms(2) by (intro response_header_fits) auto
  from http_respond_healthy(1) [OF assms(1) this] fits len assms(3) show ?thesis
    by (force simp: one_response_def refuse_method_def send_method_not_allowed_def)
qed

lemmas one_response_intros = one_response_fail one_response_json one_response_no_content one_response_refuse

text \<open>No operation reports success as an error, and results fit their buffers.\<close>

lemma pick_not_OK: "pick f cap found ms \<noteq> Inl API_OK"
  by (induction f cap found ms rule: pick.induct) (auto split: option.splits)

lemma json_get_string_not_OK: "json_get_string b f out \<noteq> Inl API_OK"
proof
  assume a: "json_get_string b f out = Inl API_OK"
  then obtain b' f' cap where "b = Some b'" "f = Some f'" "out = Some cap"
    by (auto simp: json_get_string_def split: option.splits)
  with a json_get_string_flatD [of b' f' cap "Inl API_OK"] obtain ms where "pick f' cap None ms = Inl API_OK" by auto
  with pick_not_OK show False by blast
qed

lemma parse_not_OK: "parse_limit q \<noteq> Inl API_OK" "parse_note_id p \<noteq> Inl API_OK"
  by (auto simp: parse_limit_def parse_note_id_def Let_def split: query_result.splits prod.splits if_splits)

lemma note_row_to_json_Inr:
  "note_row_to_json sq row cap out = Inr out' \<Longrightarrow> length out' < cap"
  "note_row_to_json sq row cap out \<noteq> Inl API_OK"
  by (auto simp: note_row_to_json_def Let_def split: option.splits if_splits)

lemma note_list_rows_not_OK: "note_list_rows sq cap first out rows \<noteq> Inl API_OK"
  by (induction sq cap first out rows rule: note_list_rows.induct)
    (auto simp: note_row_to_json_Inr(2) split: sum.splits)

lemma store_results_not_OK:
  "store_kv_get sq st k o1 \<noteq> (Inl API_OK, st')" "store_kv_list sq st p n o1 \<noteq> (Inl API_OK, st')"
  "store_note_create sq now st t b \<noteq> (Inl API_OK, st')" "store_note_get sq st i o1 \<noteq> (Inl API_OK, st')"
  "store_note_list sq st n off o1 tot \<noteq> (Inl API_OK, tot', st')" "store_counts sq st \<noteq> (Inl API_OK, st')"
proof -
  show "store_kv_get sq st k o1 \<noteq> (Inl API_OK, st')"
    by (auto simp: store_kv_get_def Let_def split: option.splits list.splits if_splits)
  show "store_kv_list sq st p n o1 \<noteq> (Inl API_OK, st')"
    by (auto simp: store_kv_list_def Let_def split: option.splits prod.splits if_splits)
  show "store_note_create sq now st t b \<noteq> (Inl API_OK, st')"
    by (auto simp: store_note_create_def Let_def split: option.splits if_splits)
  show "store_note_get sq st i o1 \<noteq> (Inl API_OK, st')"
    by (auto simp: store_note_get_def Let_def note_row_to_json_Inr(2) split: option.splits list.splits if_splits)
  show "store_note_list sq st n off o1 tot \<noteq> (Inl API_OK, tot', st')"
    by (auto simp: store_note_list_def Let_def split: option.splits sum.splits if_splits
        simp: note_list_rows_not_OK)
  show "store_counts sq st \<noteq> (Inl API_OK, st')"
    by (auto simp: store_counts_def Let_def split: option.splits if_splits)
qed

lemma store_texts_fit [len_bounds]:
  "store_kv_list sq st p n (Some cap) = (Inr out, st') \<Longrightarrow> length out < cap"
  "store_note_get sq st i (Some cap) = (Inr out, st') \<Longrightarrow> length out < cap"
  "store_note_list sq st n off (Some cap) tot = (Inr out, tot', st') \<Longrightarrow> length out < cap"
proof -
  show "store_kv_list sq st p n (Some cap) = (Inr out, st') \<Longrightarrow> length out < cap"
    by (auto simp: store_kv_list_def Let_def split: option.splits prod.splits if_splits)
  show "store_note_get sq st i (Some cap) = (Inr out, st') \<Longrightarrow> length out < cap"
    by (auto simp: store_note_get_def Let_def split: option.splits list.splits if_splits dest: note_row_to_json_Inr(1))
  show "store_note_list sq st n off (Some cap) tot = (Inr out, tot', st') \<Longrightarrow> length out < cap"
    by (auto simp: store_note_list_def Let_def split: option.splits sum.splits if_splits)
qed

lemma handle_health_one: "cn_send c = [] \<Longrightarrow> one_response c (handle_health now server c st)"
  by (auto simp: handle_health_def snprintf_fits_def intro!: one_response_intros)

lemma handle_metrics_one: "cn_send c = [] \<Longrightarrow> one_response c (handle_metrics sq server c st)"
  by (auto simp: handle_metrics_def snprintf_fits_def Let_def store_results_not_OK
      intro!: one_response_intros split: prod.splits sum.splits)

lemma handle_echo_one: "cn_send c = [] \<Longrightarrow> one_response c (handle_echo req c st)"
  by (auto simp: handle_echo_def snprintf_fits_def Let_def json_get_string_not_OK
      intro!: one_response_intros split: sum.splits option.splits)

lemma handle_kv_put_one: "cn_send c = [] \<Longrightarrow> one_response c (handle_kv_put sq now req key c st)"
  by (auto simp: handle_kv_put_def snprintf_fits_def Let_def json_get_string_not_OK
      intro!: one_response_intros split: prod.splits sum.splits option.splits)

lemma handle_kv_get_one: "cn_send c = [] \<Longrightarrow> one_response c (handle_kv_get sq key c st)"
  by (auto simp: handle_kv_get_def snprintf_fits_def Let_def store_results_not_OK
      intro!: one_response_intros split: prod.splits sum.splits option.splits)

lemma handle_kv_del_one: "cn_send c = [] \<Longrightarrow> one_response c (handle_kv_del sq key c st)"
  by (auto simp: handle_kv_del_def intro!: one_response_intros split: prod.splits)

lemma handle_kv_list_one: "cn_send c = [] \<Longrightarrow> one_response c (handle_kv_list sq req c st)"
  by (auto simp: handle_kv_list_def snprintf_fits_def Let_def store_results_not_OK parse_not_OK
      intro!: one_response_intros split: prod.splits sum.splits query_result.splits)

lemma handle_note_get_one: "cn_send c = [] \<Longrightarrow> one_response c (handle_note_get sq nid c st)"
  by (auto simp: handle_note_get_def store_results_not_OK intro!: one_response_intros
      split: prod.splits sum.splits dest: store_texts_fit)

lemma handle_note_create_one: "cn_send c = [] \<Longrightarrow> one_response c (handle_note_create sq now req c st)"
  by (auto simp: handle_note_create_def Let_def json_get_string_not_OK store_results_not_OK
      intro!: one_response_intros http_respond_one split: prod.splits sum.splits dest: store_texts_fit)

lemma handle_note_list_one: "cn_send c = [] \<Longrightarrow> one_response c (handle_note_list sq req c st)"
  by (auto simp: handle_note_list_def store_results_not_OK intro!: one_response_intros
      split: prod.splits sum.splits dest: store_texts_fit)

lemma handle_note_update_one: "cn_send c = [] \<Longrightarrow> one_response c (handle_note_update sq now req nid c st)"
  by (auto simp: handle_note_update_def Let_def intro!: one_response_intros handle_note_get_one
      split: prod.splits sum.splits)

lemma handle_note_del_one: "cn_send c = [] \<Longrightarrow> one_response c (handle_note_del sq nid c st)"
  by (auto simp: handle_note_del_def intro!: one_response_intros split: prod.splits)

lemma dispatch_kv_one: "cn_send c = [] \<Longrightarrow> one_response c (dispatch_kv sq now req c st)"
  by (auto simp: dispatch_kv_def Let_def intro!: one_response_intros handle_kv_list_one handle_kv_get_one
      handle_kv_put_one handle_kv_del_one split: HttpMethod.splits)

lemma dispatch_notes_one: "cn_send c = [] \<Longrightarrow> one_response c (dispatch_notes sq now req c st)"
  by (auto simp: dispatch_notes_def Let_def parse_not_OK intro!: one_response_intros handle_note_create_one
      handle_note_list_one handle_note_get_one handle_note_update_one handle_note_del_one
      split: HttpMethod.splits sum.splits)

lemma api_dispatch_one:
  assumes "cn_send c = []" "length frontend_html < 10 ^ 10"
  shows "one_response c (api_dispatch sq frontend_html now req server c st)"
  using assms
  by (auto simp: api_dispatch_def Let_def handle_root_def intro!: one_response_intros http_respond_one
      handle_health_one handle_metrics_one handle_echo_one dispatch_kv_one dispatch_notes_one
      split: option.splits)

section \<open>What a request can change\<close>

definition same_tables :: "('db \<Rightarrow> tables) \<Rightarrow> 'db option \<Rightarrow> 'db handled \<Rightarrow> bool" where
  "same_tables view st h \<longleftrightarrow> map_option view (snd (snd h)) = map_option view st"

lemma same_tables_simps [simp]:
  "same_tables view st (fail_with e d c st') \<longleftrightarrow> map_option view st' = map_option view st"
  "same_tables view st (finish sent st') \<longleftrightarrow> map_option view st' = map_option view st"
  "same_tables view st (refuse_method a c st') \<longleftrightarrow> map_option view st' = map_option view st"
  by (simp_all add: same_tables_def fail_with_def finish_def refuse_method_def)

context sqlite_laws
begin

lemma query_frames [store_frame]:
  "store_kv_get sq st k o1 = (r, st') \<Longrightarrow> map_option view st' = map_option view st"
  "store_kv_list sq st p n o1 = (r1, st') \<Longrightarrow> map_option view st' = map_option view st"
  "store_note_get sq st i o1 = (r2, st') \<Longrightarrow> map_option view st' = map_option view st"
  "store_note_list sq st n off o1 tot = (r3, tot', st') \<Longrightarrow> map_option view st' = map_option view st"
  "store_counts sq st = (r4, st') \<Longrightarrow> map_option view st' = map_option view st"
proof -
  show "store_kv_get sq st k o1 = (r, st') \<Longrightarrow> map_option view st' = map_option view st"
    by (auto simp: store_kv_get_def Let_def query_keeps split: option.splits if_splits)
  show "store_kv_list sq st p n o1 = (r1, st') \<Longrightarrow> map_option view st' = map_option view st"
    by (auto simp: store_kv_list_def Let_def query_keeps split: option.splits if_splits)
  show "store_note_get sq st i o1 = (r2, st') \<Longrightarrow> map_option view st' = map_option view st"
    by (auto simp: store_note_get_def Let_def query_keeps split: option.splits if_splits)
  show "store_note_list sq st n off o1 tot = (r3, tot', st') \<Longrightarrow> map_option view st' = map_option view st"
    by (auto simp: store_note_list_def Let_def query_keeps split: option.splits if_splits)
  show "store_counts sq st = (r4, st') \<Longrightarrow> map_option view st' = map_option view st"
    by (auto simp: store_counts_def Let_def query_keeps split: option.splits if_splits)
qed

lemma reads_same [store_frame]:
  "same_tables view st (handle_health now server c st)"
  "same_tables view st (handle_metrics sq sv c st)"
  "same_tables view st (handle_echo req c st)"
  "same_tables view st (handle_kv_get sq key c st)"
  "same_tables view st (handle_kv_list sq req c st)"
  "same_tables view st (handle_note_get sq nid c st)"
  "same_tables view st (handle_note_list sq req c st)"
proof -
  show "same_tables view st (handle_health now server c st)" by (simp add: handle_health_def)
  show "same_tables view st (handle_metrics sq sv c st)"
    by (auto simp: handle_metrics_def Let_def split: prod.splits sum.splits dest: query_frames)
  show "same_tables view st (handle_echo req c st)"
    by (auto simp: handle_echo_def Let_def split: sum.splits option.splits)
  show "same_tables view st (handle_kv_get sq key c st)"
    by (auto simp: handle_kv_get_def split: prod.splits sum.splits option.splits dest: query_frames)
  show "same_tables view st (handle_kv_list sq req c st)"
    by (auto simp: handle_kv_list_def Let_def split: prod.splits sum.splits dest: query_frames)
  show "same_tables view st (handle_note_get sq nid c st)"
    by (auto simp: handle_note_get_def split: prod.splits sum.splits dest: query_frames)
  show "same_tables view st (handle_note_list sq req c st)"
    by (auto simp: handle_note_list_def split: prod.splits sum.splits dest: query_frames)
qed

lemma dispatch_get_same:
  assumes "rq_method req = HTTP_GET"
  shows "same_tables view st (dispatch_kv sq now req c st)" "same_tables view st (dispatch_notes sq now req c st)"
  using assms by (auto simp: dispatch_kv_def dispatch_notes_def Let_def store_frame split: sum.splits)

lemma api_dispatch_change:
  assumes "\<not> same_tables view st (api_dispatch sq html now (Some rq) (Some sv) c st)"
  shows "rq_method rq \<noteq> HTTP_GET \<and> prefix ''/api/'' (rq_path rq) \<and> server_auth_check (Some sv) (Some rq) = API_OK"
proof -
  let ?p = "rq_path rq"
  have pre: "strncmp_eq ?p ''/api/kv'' 7 \<longleftrightarrow> prefix ''/api/kv'' ?p"
    "strncmp_eq ?p ''/api/notes'' 10 \<longleftrightarrow> prefix ''/api/notes'' ?p"
    "strncmp_eq ?p ''/api/'' 5 \<longleftrightarrow> prefix ''/api/'' ?p"
    using strncmp_eq_prefix [of ?p "''/api/kv''"] strncmp_eq_prefix [of ?p "''/api/notes''"]
      strncmp_eq_prefix [of ?p "''/api/''"] by (simp_all add: eval_nat_numeral)
  have sub: "prefix ''/api/kv'' ?p \<or> prefix ''/api/notes'' ?p \<Longrightarrow> prefix ''/api/'' ?p"
    by (auto simp: prefix_def)
  have "\<not> same_tables view st (dispatch_kv sq now rq c st) \<and> prefix ''/api/kv'' ?p \<or>
      \<not> same_tables view st (dispatch_notes sq now rq c st) \<and> prefix ''/api/notes'' ?p"
    and auth: "prefix ''/api/'' ?p \<Longrightarrow> rq_method rq \<noteq> HTTP_GET \<Longrightarrow> server_auth_check (Some sv) (Some rq) = API_OK"
    using assms
    by (auto simp: api_dispatch_def Let_def pre store_frame handle_root_def split: option.splits if_splits)
  then have "rq_method rq \<noteq> HTTP_GET" "prefix ''/api/'' ?p" using dispatch_get_same sub by blast+
  then show ?thesis using auth by blast
qed

end

section \<open>Bodies that the parser reads back\<close>

lemma member_jstr:
  "encodes val e \<Longrightarrow> length val < 8192 \<Longrightarrow> encodes name name \<Longrightarrow> length name < 128 \<Longrightarrow>
   member_ok (jstr name e) name val"
  unfolding member_ok_def jstr_def
  by (rule exI [of _ "[]"], rule exI [of _ name], rule exI [of _ "[]"], rule exI [of _ "[]"], rule exI [of _ e],
      rule exI [of _ "[]"]) simp

lemma encodes_plain: "\<forall>c \<in> set s. c \<noteq> DQ \<and> c \<noteq> BSLASH \<Longrightarrow> encodes s s"
  by (induction s) (auto intro: encodes.intros)

lemma flat_object_two:
  assumes "member_ok m1 n1 v1" "member_ok m2 n2 v2"
  shows "flat_object (''{'' @ m1 @ '','' @ m2 @ ''}'') [(n1, v1), (n2, v2)]"
proof -
  have "flat_members (m2 @ CHR ''}'' # []) [(n2, v2)]" by (rule fm_last [OF assms(2)]) simp
  from fm_comma [OF assms(1) this] show ?thesis
    unfolding flat_object_def by - (rule exI [of _ "[]"], simp)
qed

lemma flat_object_one:
  assumes "member_ok m n v"
  shows "flat_object (''{'' @ m @ ''}'') [(n, v)]"
  unfolding flat_object_def using fm_last [OF assms, of "[]"] by - (rule exI [of _ "[]"], simp)

lemma safe_detail_encodes: "\<exists>v. encodes v (safe_detail pos d) \<and> length v \<le> length (safe_detail pos d)"
proof (induction pos d rule: safe_detail.induct)
  case (2 pos c cs)
  show ?case
  proof (cases "pos + 2 < 512")
    case True
    show ?thesis
    proof (cases "c = DQ \<or> c = BSLASH")
      case esc: True
      then obtain v where "encodes v (safe_detail (pos + 2) cs)" "length v \<le> length (safe_detail (pos + 2) cs)"
        using 2 True by blast
      then have "encodes (c # v) (BSLASH # c # safe_detail (pos + 2) cs)"
        using esc by (intro enc_esc) (auto simp: unescape_def)
      then show ?thesis using esc True \<open>length v \<le> _\<close> by (intro exI [of _ "c # v"]) auto
    next
      case raw: False
      then obtain v where "encodes v (safe_detail (pos + 1) cs)" "length v \<le> length (safe_detail (pos + 1) cs)"
        using 2 True by blast
      then show ?thesis using raw True by (intro exI [of _ "c # v"]) (auto intro: enc_raw)
    qed
  qed (auto intro: encodes.intros)
qed (auto intro: encodes.intros)

lemma api_error_code_plain: "encodes (api_error_code e) (api_error_code e)"
  by (rule encodes_plain) (cases e; simp)

lemma error_json_flat: "\<exists>v. flat_object (error_json e d) [(''error'', api_error_code e), (''message'', v)]"
proof -
  obtain v where v: "encodes v (safe_detail 0 d)" "length v \<le> length (safe_detail 0 d)"
    using safe_detail_encodes by blast
  have "member_ok (jstr ''error'' (api_error_code e)) ''error'' (api_error_code e)"
    using length_api_error_code [of e] by (intro member_jstr api_error_code_plain encodes_plain) auto
  moreover have "member_ok (jstr ''message'' (safe_detail 0 d)) ''message'' v"
    using v length_safe_detail [of 0 d] by (intro member_jstr encodes_plain) auto
  ultimately have "flat_object (''{'' @ jstr ''error'' (api_error_code e) @ '','' @ jstr ''message'' (safe_detail 0 d) @ ''}'')
      [(''error'', api_error_code e), (''message'', v)]" by (rule flat_object_two)
  then show ?thesis by (auto simp: error_json_def error_body_def jstr_def)
qed

section \<open>Key routes from end to end\<close>

lemma valid_key_no_slash: "store_validate_key (Some k) = API_OK \<Longrightarrow> strchr k CHR ''/'' = None"
  using valid_keyD(3) [of k] by (auto simp: strchr_None list_all_iff key_char_ok_def)

lemma dispatch_kv_key:
  assumes "rq_path rq = ''/api/kv/'' @ k" "store_validate_key (Some k) = API_OK"
  shows "dispatch_kv sq now rq c st =
    (case rq_method rq of
       HTTP_GET \<Rightarrow> handle_kv_get sq k c st
     | HTTP_PUT \<Rightarrow> handle_kv_put sq now rq k c st
     | HTTP_DELETE \<Rightarrow> handle_kv_del sq k c st
     | _ \<Rightarrow> refuse_method ''GET, PUT, DELETE'' c st)"
  using assms valid_keyD(1) [OF assms(2)] valid_key_no_slash [OF assms(2)]
  by (simp add: dispatch_kv_def strncmp_eq_def)

lemma api_dispatch_kv_key:
  assumes "rq_path rq = ''/api/kv/'' @ k" "store_validate_key (Some k) = API_OK"
    and "rq_method rq = HTTP_GET \<or> server_auth_check (Some sv) (Some rq) = API_OK"
  shows "api_dispatch sq html now (Some rq) (Some sv) c (Some db) = dispatch_kv sq now rq c (Some db)"
  using assms by (auto simp: api_dispatch_def Let_def strncmp_eq_def)

lemma kv_item_fits:
  assumes "store_validate_key (Some k) = API_OK" "length v \<le> STORE_MAX_VALUE_LEN" "list_all escapable v"
  shows "json_escape (Some (STORE_MAX_VALUE_LEN * 2 + 1)) (Some v) = Some (escape_ref v)"
    and "json_escape (Some (STORE_MAX_KEY_LEN * 2 + 1)) (Some k) = Some k"
    and "snprintf_fits (STORE_MAX_VALUE_LEN * 2 + 512) (kv_item k (escape_ref v))"
  using assms valid_keyD(2) [OF assms(1)] valid_key_plain [OF assms(1)] length_escape_ref(1) [of v]
  by (auto simp: json_escape_ref snprintf_fits_def kv_item_def jstr_def)

lemma send_json_healthy:
  assumes "cn_send c = []" "length b < 10 ^ 10"
  shows "finish (send_json 200 (Some b) c) st = (API_OK, responded 200 ''application/json'' b None c, st)"
proof -
  have "snprintf_fits 1024 (response_header 200 ''application/json'' (length b) None)"
    using assms by (intro response_header_fits) auto
  from http_respond_healthy(1) [OF assms(1) this] show ?thesis by (simp add: send_json_def finish_def)
qed

context sqlite_laws
begin

lemma handle_kv_put_ok:
  assumes "store_good view up st" "cn_send c = []" "api_require_json (Some rq) True = API_OK"
    and "json_get_string (rq_body rq) (Some ''value'') (Some (STORE_MAX_VALUE_LEN + 1)) = Inr v"
    and "store_validate_key (Some k) = API_OK" "list_all escapable v"
  shows "\<exists>st'. handle_kv_put sq now rq k c st =
      (API_OK, responded 200 ''application/json'' (kv_item k (escape_ref v)) None c, st') \<and>
    store_good view up st' \<and> kv_lookup view st' = (kv_lookup view st)(k \<mapsto> v)"
proof -
  have len: "length v \<le> STORE_MAX_VALUE_LEN" and "nonul v" using json_get_string_length [OF assms(4)] by auto
  then have "map_op_ok (MPut now k v)" using assms(5) by (simp add: put_check_def validate_value_OK)
  from kv.put_law [OF assms(1) this] obtain st' where
    put: "store_kv_put sq now st (Some k) (Some v) = (API_OK, st')" and
    st': "store_good view up st'" "kv_lookup view st' = (kv_lookup view st)(k \<mapsto> v)" by blast
  note fits = kv_item_fits [OF assms(5) len assms(6)]
  then have "length (kv_item k (escape_ref v)) < 10 ^ 10" by (simp add: snprintf_fits_def)
  from send_json_healthy [OF assms(2) this, of st'] show ?thesis
    using assms(3,4) put st' fits by (simp add: handle_kv_put_def Let_def)
qed

lemma handle_kv_get_ok:
  assumes "store_good view up st" "cn_send c = []" "kv_lookup view st k = Some v" "list_all escapable v"
  shows "\<exists>st'. handle_kv_get sq k c st =
      (API_OK, responded 200 ''application/json'' (kv_item k (escape_ref v)) None c, st') \<and>
    store_good view up st' \<and> kv_lookup view st' = kv_lookup view st"
proof -
  obtain db t where "st = Some db" "table_inv (view db)" "kv_tab (view db) k = Some (v, t)"
    using assms(1,3) by (auto simp: store_good_def kv_lookup_def)
  then have key: "store_validate_key (Some k) = API_OK" and len: "length v \<le> STORE_MAX_VALUE_LEN"
    using table_inv_kvD by blast+
  from kv.get_law [OF assms(1), of k] key assms(3) obtain st' where
    get: "store_kv_get sq st (Some k) (Some (STORE_MAX_VALUE_LEN + 1)) = (Inr v, st')" and
    st': "store_good view up st'" "kv_lookup view st' = kv_lookup view st" by auto
  note fits = kv_item_fits [OF key len assms(4)]
  then have "length (kv_item k (escape_ref v)) < 10 ^ 10" by (simp add: snprintf_fits_def)
  from send_json_healthy [OF assms(2) this, of st'] show ?thesis
    using get st' fits by (simp add: handle_kv_get_def)
qed

text \<open>A value that JSON escaping refuses.\<close>

lemma handle_kv_put_unescapable:
  assumes "store_good view up st" "cn_send c = []" "api_require_json (Some rq) True = API_OK"
    and "json_get_string (rq_body rq) (Some ''value'') (Some (STORE_MAX_VALUE_LEN + 1)) = Inr v"
    and "store_validate_key (Some k) = API_OK" "\<not> list_all escapable v"
  shows "\<exists>st'. handle_kv_put sq now rq k c st =
      (API_ERR_INTERNAL, responded 500 ''application/json'' (error_json API_ERR_INTERNAL ''encode overflow'') None c, st') \<and>
    store_good view up st' \<and> kv_lookup view st' = (kv_lookup view st)(k \<mapsto> v)"
proof -
  have len: "length v \<le> STORE_MAX_VALUE_LEN" and "nonul v" using json_get_string_length [OF assms(4)] by auto
  then have "map_op_ok (MPut now k v)" using assms(5) by (simp add: put_check_def validate_value_OK)
  from kv.put_law [OF assms(1) this] obtain st' where
    put: "store_kv_put sq now st (Some k) (Some v) = (API_OK, st')" and
    st': "store_good view up st'" "kv_lookup view st' = (kv_lookup view st)(k \<mapsto> v)" by blast
  have "json_escape (Some cap) (Some v) = None" for cap using assms(6) by (simp add: json_escape_ref)
  then show ?thesis
    using assms(2-4) put st'
    by (simp add: handle_kv_put_def Let_def fail_with_def http_respond_error_healthy error_allow_def)
qed

lemma handle_kv_get_unescapable:
  assumes "store_good view up st" "cn_send c = []" "kv_lookup view st k = Some v" "\<not> list_all escapable v"
  shows "\<exists>st'. handle_kv_get sq k c st =
      (API_ERR_INTERNAL, responded 500 ''application/json'' (error_json API_ERR_INTERNAL ''encode overflow'') None c, st') \<and>
    store_good view up st' \<and> kv_lookup view st' = kv_lookup view st"
proof -
  obtain db t where "st = Some db" "table_inv (view db)" "kv_tab (view db) k = Some (v, t)"
    using assms(1,3) by (auto simp: store_good_def kv_lookup_def)
  then have key: "store_validate_key (Some k) = API_OK" using table_inv_kvD by blast
  from kv.get_law [OF assms(1), of k] key assms(3) obtain st' where
    get: "store_kv_get sq st (Some k) (Some (STORE_MAX_VALUE_LEN + 1)) = (Inr v, st')" and
    st': "store_good view up st'" "kv_lookup view st' = kv_lookup view st" by auto
  have "json_escape (Some cap) (Some v) = None" for cap using assms(4) by (simp add: json_escape_ref)
  then show ?thesis
    using assms(2) get st'
    by (simp add: handle_kv_get_def fail_with_def http_respond_error_healthy error_allow_def)
qed

lemma put_unescapable:
  assumes "store_good view up (Some db)" "cn_send c = []" "cn_send c2 = []"
    and put: "rq_method rq = HTTP_PUT" "rq_path rq = ''/api/kv/'' @ k" "server_auth_check (Some sv) (Some rq) = API_OK"
      "api_require_json (Some rq) True = API_OK"
      "json_get_string (rq_body rq) (Some ''value'') (Some (STORE_MAX_VALUE_LEN + 1)) = Inr v"
    and get: "rq_method rq2 = HTTP_GET" "rq_path rq2 = ''/api/kv/'' @ k"
    and "store_validate_key (Some k) = API_OK" "\<not> list_all escapable v"
  shows "\<exists>st1 st2 body.
    api_dispatch sq html now (Some rq) (Some sv) c (Some db) =
      (API_ERR_INTERNAL, responded 500 ''application/json'' body None c, st1) \<and>
    kv_lookup view st1 = (kv_lookup view (Some db))(k \<mapsto> v) \<and>
    api_dispatch sq html now2 (Some rq2) (Some sv) c2 st1 =
      (API_ERR_INTERNAL, responded 500 ''application/json'' body None c2, st2)"
proof -
  let ?body = "error_json API_ERR_INTERNAL ''encode overflow''"
  obtain st1 where st1: "handle_kv_put sq now rq k c (Some db) =
      (API_ERR_INTERNAL, responded 500 ''application/json'' ?body None c, st1)"
    "store_good view up st1" "kv_lookup view st1 = (kv_lookup view (Some db))(k \<mapsto> v)"
    using handle_kv_put_unescapable [OF assms(1,2) put(4,5) assms(11,12), of now] by auto
  obtain st2 where st2: "handle_kv_get sq k c2 st1 =
      (API_ERR_INTERNAL, responded 500 ''application/json'' ?body None c2, st2)"
    using handle_kv_get_unescapable [OF st1(2) assms(3) _ assms(12), of k] st1(3) by auto
  obtain db1 where db1: "st1 = Some db1" using st1(2) by (auto simp: store_good_def)
  have p: "api_dispatch sq html now (Some rq) (Some sv) c (Some db) =
      (API_ERR_INTERNAL, responded 500 ''application/json'' ?body None c, st1)"
    using st1(1) put assms(11) by (simp add: api_dispatch_kv_key [where k = k] dispatch_kv_key [where k = k])
  have "api_dispatch sq html now2 (Some rq2) (Some sv) c2 st1 =
      (API_ERR_INTERNAL, responded 500 ''application/json'' ?body None c2, st2)"
    using st2 db1 get assms(11) by (simp add: api_dispatch_kv_key [where k = k] dispatch_kv_key [where k = k])
  with p st1(3) show ?thesis by blast
qed

lemma put_then_get:
  assumes "store_good view up (Some db)" "cn_send c = []" "cn_send c2 = []"
    and put: "rq_method rq = HTTP_PUT" "rq_path rq = ''/api/kv/'' @ k" "server_auth_check (Some sv) (Some rq) = API_OK"
      "api_require_json (Some rq) True = API_OK"
      "json_get_string (rq_body rq) (Some ''value'') (Some (STORE_MAX_VALUE_LEN + 1)) = Inr v"
    and get: "rq_method rq2 = HTTP_GET" "rq_path rq2 = ''/api/kv/'' @ k"
    and "store_validate_key (Some k) = API_OK" "list_all escapable v"
  shows "\<exists>st1 st2.
    api_dispatch sq html now (Some rq) (Some sv) c (Some db) =
      (API_OK, responded 200 ''application/json'' (kv_item k (escape_ref v)) None c, st1) \<and>
    api_dispatch sq html now2 (Some rq2) (Some sv) c2 st1 =
      (API_OK, responded 200 ''application/json'' (kv_item k (escape_ref v)) None c2, st2)"
proof -
  obtain st1 where st1: "handle_kv_put sq now rq k c (Some db) =
      (API_OK, responded 200 ''application/json'' (kv_item k (escape_ref v)) None c, st1)"
    "store_good view up st1" "kv_lookup view st1 k = Some v"
    using handle_kv_put_ok [OF assms(1,2) put(4,5) assms(11,12), of now] by auto
  obtain st2 where st2: "handle_kv_get sq k c2 st1 =
      (API_OK, responded 200 ''application/json'' (kv_item k (escape_ref v)) None c2, st2)"
    using handle_kv_get_ok [OF st1(2) assms(3) st1(3) assms(12)] by auto
  obtain db1 where db1: "st1 = Some db1" using st1(2) by (auto simp: store_good_def)
  show ?thesis
    using st1(1) st2 db1 put get assms(11)
    by (simp add: api_dispatch_kv_key [where k = k] dispatch_kv_key [where k = k])
qed

end

lemma kv_item_flat:
  assumes "store_validate_key (Some k) = API_OK" "length v < 8192"
  shows "flat_object (kv_item k (escape_ref v)) [(''key'', k), (''value'', v)]"
proof -
  have "encodes k k" using encodes_escape_ref [of k] valid_key_plain(3) [OF assms(1)] by simp
  then have k: "member_ok (jstr ''key'' k) ''key'' k"
    using valid_keyD(2) [OF assms(1)] by (intro member_jstr) (auto intro: encodes_plain)
  have "member_ok (jstr ''value'' (escape_ref v)) ''value'' v"
    using assms(2) by (intro member_jstr encodes_escape_ref) (auto intro: encodes_plain)
  from flat_object_two [OF k this] show ?thesis by (simp add: kv_item_def)
qed

section \<open>Properties\<close>

text \<open>C6: every request is answered by exactly one complete response, whose status agrees
  with what \<open>api_dispatch\<close> returns: a success status exactly on \<open>API_OK\<close>,
  and the status of the typed error otherwise.  A response is complete when its first blank
  line ends the header and the announced length is that of the rest; the bytes sent are such
  a response, and no shorter part of them is one, so that a missing, a truncated and a second
  response are all excluded.  This holds on every branch of every handler and whatever the
  database does.\<close>

theorem api_dispatch_one_response:
  assumes "cn_send c = []" and "length frontend_html < 10 ^ 10"
    and "api_dispatch sq frontend_html now req server c st = (err, c', st')"
  shows "\<exists>status bs. cn_out c' = cn_out c @ bs \<and> cn_in c' = cn_in c \<and> is_response status bs \<and>
    (\<forall>s x z. bs = x @ z \<longrightarrow> is_response s x \<longrightarrow> z = []) \<and>
    (if err = API_OK then status \<in> {200, 201, 204} else status = api_error_status err)"
  using one_response_bytes [OF api_dispatch_one [OF assms(1,2), of sq now req server st, unfolded assms(3)]] .

definition plain_conn :: conn where
  "plain_conn = \<lparr>cn_in = [], cn_send = [], cn_out = []\<rparr>"

definition put_request :: "cstr \<Rightarrow> bytes \<Rightarrow> HttpRequest" where
  "put_request path body = zero_request\<lparr>rq_method := HTTP_PUT, rq_path := path, rq_content_length := int (length body),
     rq_content_type := ''application/json'', rq_api_key := ''secret'', rq_body := Some body, rq_body_len := length body\<rparr>"

definition get_request :: "cstr \<Rightarrow> HttpRequest" where
  "get_request path = zero_request\<lparr>rq_path := path, rq_content_length := -1\<rparr>"

theorem api_dispatch_one_response_witness:
  "\<exists>status bs.
    cn_out (fst (snd (api_dispatch engine [] 5 (Some (get_request ''/nope'')) (Some (sample_server (Some empty_rdb)))
      plain_conn (Some empty_rdb)))) = cn_out plain_conn @ bs \<and>
    cn_in (fst (snd (api_dispatch engine [] 5 (Some (get_request ''/nope'')) (Some (sample_server (Some empty_rdb)))
      plain_conn (Some empty_rdb)))) = cn_in plain_conn \<and> is_response status bs \<and>
    (\<forall>s x z. bs = x @ z \<longrightarrow> is_response s x \<longrightarrow> z = []) \<and>
    (if API_ERR_NOT_FOUND = API_OK then status \<in> {200, 201, 204} else status = api_error_status API_ERR_NOT_FOUND)"
proof (rule api_dispatch_one_response)
  show "cn_send plain_conn = []" by (simp add: plain_conn_def)
  show "length ([] :: bytes) < 10 ^ 10" by simp
  have "fst (api_dispatch engine [] 5 (Some (get_request ''/nope'')) (Some (sample_server (Some empty_rdb)))
      plain_conn (Some empty_rdb)) = API_ERR_NOT_FOUND"
    by (simp add: api_dispatch_def get_request_def zero_request_def Let_def strncmp_eq_def sample_server_def fail_with_def)
  then show "api_dispatch engine [] 5 (Some (get_request ''/nope'')) (Some (sample_server (Some empty_rdb)))
      plain_conn (Some empty_rdb) = (API_ERR_NOT_FOUND,
      fst (snd (api_dispatch engine [] 5 (Some (get_request ''/nope'')) (Some (sample_server (Some empty_rdb)))
        plain_conn (Some empty_rdb))),
      snd (snd (api_dispatch engine [] 5 (Some (get_request ''/nope'')) (Some (sample_server (Some empty_rdb)))
        plain_conn (Some empty_rdb))))"
    by (metis prod.collapse)
qed

text \<open>C1: no unauthorized change.  When a request changes the tables, its method is not
  GET, its path is under \<open>/api/\<close>, and the server is open or the request
  carried exactly the configured key; so every GET, and every request to a protected
  server with a missing or wrong key, leaves the tables as they were.\<close>

theorem api_change_is_authorized:
  assumes "sqlite_laws sq view up" and "nonul (sv_api_key sv)" and "nonul (rq_api_key rq)"
    and "api_dispatch sq html now (Some rq) (Some sv) c (Some db) = (err, c', st')"
    and "map_option view st' \<noteq> Some (view db)"
  shows "rq_method rq \<noteq> HTTP_GET \<and> prefix ''/api/'' (rq_path rq) \<and>
    (sv_api_key sv = [] \<or> rq_api_key rq = sv_api_key sv)"
  using sqlite_laws.api_dispatch_change [OF assms(1), of "Some db" html now rq sv c] assms(4,5)
    server_auth_check_cases [OF assms(2,3)]
  by (auto simp: same_tables_def split: if_splits)

definition value_body :: "cstr \<Rightarrow> bytes" where
  "value_body e = ''{'' @ jstr ''value'' e @ ''}''"

theorem api_change_is_authorized_witness:
  "rq_method (put_request ''/api/kv/a'' (value_body ''x'')) \<noteq> HTTP_GET \<and>
   prefix ''/api/'' (rq_path (put_request ''/api/kv/a'' (value_body ''x''))) \<and>
   (sv_api_key (sample_server (Some empty_rdb)) = [] \<or>
    rq_api_key (put_request ''/api/kv/a'' (value_body ''x'')) = sv_api_key (sample_server (Some empty_rdb)))"
proof -
  let ?h = "api_dispatch engine [] 5 (Some (put_request ''/api/kv/a'' (value_body ''x'')))
      (Some (sample_server (Some empty_rdb))) plain_conn (Some empty_rdb)"
  have "map_option rd_kv (snd (snd ?h)) = Some [(''a'', ''x'', 5)]" by code_simp
  then have "map_option engine_view (snd (snd ?h)) \<noteq> Some (engine_view empty_rdb)"
    by (auto simp: engine_view_def empty_rdb_def dest: fun_cong)
  moreover have "?h = (fst ?h, fst (snd ?h), snd (snd ?h))" by simp
  moreover have "nonul (sv_api_key (sample_server (Some empty_rdb)))"
    "nonul (rq_api_key (put_request ''/api/kv/a'' (value_body ''x'')))"
    by (simp_all add: sample_server_def put_request_def)
  ultimately show ?thesis using api_change_is_authorized [OF engine_laws] by blast
qed

text \<open>C7: the key route end to end.  After an authorized PUT whose body is a flat object
  with the value \<open>v\<close>, both the PUT and a following GET of the key answer 200 with
  the same body, and the JSON reader finds exactly the key and \<open>v\<close> in it, provided
  \<open>v\<close> has no control character that JSON escaping refuses.\<close>

theorem api_put_get_roundtrip:
  assumes "sqlite_laws sq view up" and "store_good view up (Some db)" and "cn_send c = []" and "cn_send c2 = []"
    and "rq_method rq = HTTP_PUT" and "rq_path rq = ''/api/kv/'' @ k"
    and "server_auth_check (Some sv) (Some rq) = API_OK" and "api_require_json (Some rq) True = API_OK"
    and "json_get_string (rq_body rq) (Some ''value'') (Some (STORE_MAX_VALUE_LEN + 1)) = Inr v"
    and "rq_method rq2 = HTTP_GET" and "rq_path rq2 = ''/api/kv/'' @ k"
    and "store_validate_key (Some k) = API_OK" and "list_all escapable v"
  shows "\<exists>st1 st2 body.
    api_dispatch sq html now (Some rq) (Some sv) c (Some db) =
      (API_OK, responded 200 ''application/json'' body None c, st1) \<and>
    api_dispatch sq html now2 (Some rq2) (Some sv) c2 st1 =
      (API_OK, responded 200 ''application/json'' body None c2, st2) \<and>
    json_get_string (Some body) (Some ''key'') (Some 129) = Inr k \<and>
    json_get_string (Some body) (Some ''value'') (Some 8192) = Inr v"
proof -
  have v: "length v < 8192" "nonul v" using json_get_string_length [OF assms(9)] by auto
  note k = valid_keyD(2) [OF assms(12)] valid_key_plain(4) [OF assms(12)]
  note flat = kv_item_flat [OF assms(12) v(1)]
  have "json_get_string (Some (kv_item k (escape_ref v))) (Some ''key'') (Some 129) = Inr k"
    using k v by (simp add: json_get_string_flat [OF flat])
  moreover have "json_get_string (Some (kv_item k (escape_ref v))) (Some ''value'') (Some 8192) = Inr v"
    using k v by (simp add: json_get_string_flat [OF flat])
  ultimately show ?thesis
    using sqlite_laws.put_then_get [OF assms(1-13), of html now now2] by blast
qed

theorem api_put_get_roundtrip_witness:
  "\<exists>st1 st2 body.
    api_dispatch engine [] 5 (Some (put_request ''/api/kv/a'' (value_body ''x''))) (Some (sample_server (Some empty_rdb)))
      plain_conn (Some empty_rdb) = (API_OK, responded 200 ''application/json'' body None plain_conn, st1) \<and>
    api_dispatch engine [] 6 (Some (get_request ''/api/kv/a'')) (Some (sample_server (Some empty_rdb)))
      plain_conn st1 = (API_OK, responded 200 ''application/json'' body None plain_conn, st2) \<and>
    json_get_string (Some body) (Some ''key'') (Some 129) = Inr ''a'' \<and>
    json_get_string (Some body) (Some ''value'') (Some 8192) = Inr ''x''"
proof (rule api_put_get_roundtrip [OF engine_laws empty_rdb_good])
  show "server_auth_check (Some (sample_server (Some empty_rdb)))
      (Some (put_request ''/api/kv/a'' (value_body ''x''))) = API_OK"
    by (subst server_auth_check_cases) (simp_all add: sample_server_def put_request_def)
  show "api_require_json (Some (put_request ''/api/kv/a'' (value_body ''x''))) True = API_OK" by code_simp
  show "json_get_string (rq_body (put_request ''/api/kv/a'' (value_body ''x''))) (Some ''value'')
      (Some (STORE_MAX_VALUE_LEN + 1)) = Inr ''x''" by code_simp
  show "store_validate_key (Some ''a'') = API_OK" "list_all escapable ''x''" by code_simp+
qed (simp_all add: plain_conn_def put_request_def get_request_def zero_request_def)

text \<open>C39: a PUT whose value has a control character that JSON escaping refuses is answered
  with 500 although the write took place: the value is stored under the key (and nothing
  else changed), and a following GET of that key is answered with 500 as well, so that the
  key stays unreadable.\<close>

theorem api_put_control_char_stored:
  assumes "sqlite_laws sq view up" and "store_good view up (Some db)" and "cn_send c = []" and "cn_send c2 = []"
    and "rq_method rq = HTTP_PUT" and "rq_path rq = ''/api/kv/'' @ k"
    and "server_auth_check (Some sv) (Some rq) = API_OK" and "api_require_json (Some rq) True = API_OK"
    and "json_get_string (rq_body rq) (Some ''value'') (Some (STORE_MAX_VALUE_LEN + 1)) = Inr v"
    and "rq_method rq2 = HTTP_GET" and "rq_path rq2 = ''/api/kv/'' @ k"
    and "store_validate_key (Some k) = API_OK" and "\<not> list_all escapable v"
  shows "\<exists>st1 st2 body.
    api_dispatch sq html now (Some rq) (Some sv) c (Some db) =
      (API_ERR_INTERNAL, responded 500 ''application/json'' body None c, st1) \<and>
    kv_lookup view st1 = (kv_lookup view (Some db))(k \<mapsto> v) \<and>
    api_dispatch sq html now2 (Some rq2) (Some sv) c2 st1 =
      (API_ERR_INTERNAL, responded 500 ''application/json'' body None c2, st2)"
  by (rule sqlite_laws.put_unescapable [OF assms])

theorem api_put_control_char_stored_witness:
  "\<exists>st1 st2 body.
    api_dispatch engine [] 5 (Some (put_request ''/api/kv/a'' (value_body [CHR 0x01]))) (Some (sample_server (Some empty_rdb)))
      plain_conn (Some empty_rdb) = (API_ERR_INTERNAL, responded 500 ''application/json'' body None plain_conn, st1) \<and>
    kv_lookup engine_view st1 = (kv_lookup engine_view (Some empty_rdb))(''a'' \<mapsto> [CHR 0x01]) \<and>
    api_dispatch engine [] 6 (Some (get_request ''/api/kv/a'')) (Some (sample_server (Some empty_rdb)))
      plain_conn st1 = (API_ERR_INTERNAL, responded 500 ''application/json'' body None plain_conn, st2)"
proof (rule api_put_control_char_stored [OF engine_laws empty_rdb_good])
  show "server_auth_check (Some (sample_server (Some empty_rdb)))
      (Some (put_request ''/api/kv/a'' (value_body [CHR 0x01]))) = API_OK"
    by (subst server_auth_check_cases) (simp_all add: sample_server_def put_request_def)
  show "api_require_json (Some (put_request ''/api/kv/a'' (value_body [CHR 0x01]))) True = API_OK" by code_simp
  show "json_get_string (rq_body (put_request ''/api/kv/a'' (value_body [CHR 0x01]))) (Some ''value'')
      (Some (STORE_MAX_VALUE_LEN + 1)) = Inr [CHR 0x01]" by code_simp
  show "store_validate_key (Some ''a'') = API_OK" "\<not> list_all escapable [CHR 0x01]" by code_simp+
qed (simp_all add: plain_conn_def put_request_def get_request_def zero_request_def)

text \<open>C31: every error response is JSON that a client can read: whatever the detail text,
  the body is a flat object whose field \<open>error\<close> is the code of the error.\<close>

theorem error_body_readable:
  "json_get_string (Some (error_json e d)) (Some ''error'') (Some 32) = Inr (api_error_code e)"
proof -
  obtain v where flat: "flat_object (error_json e d) [(''error'', api_error_code e), (''message'', v)]"
    using error_json_flat by blast
  have "cstr_of (api_error_code e) = api_error_code e" "length (api_error_code e) < 32"
    using length_api_error_code [of e] by simp_all
  then show ?thesis by (simp add: json_get_string_flat [OF flat])
qed

text \<open>C32: the echo route returns what it was given: a JSON request with the string
  \<open>v\<close> in the field \<open>data\<close> is answered with 200 and a body in which the
  reader finds \<open>v\<close> again.\<close>

theorem api_echo_roundtrip:
  assumes "cn_send c = []" and "rq_method rq = HTTP_POST" and "rq_path rq = ''/api/echo''"
    and "server_auth_check (Some sv) (Some rq) = API_OK" and "api_require_json (Some rq) True = API_OK"
    and "json_get_string (rq_body rq) (Some ''data'') (Some HTTP_MAX_BODY_SIZE) = Inr v"
    and "list_all escapable v"
  shows "\<exists>body. api_dispatch sq html now (Some rq) (Some sv) c (Some db) =
      (API_OK, responded 200 ''application/json'' body None c, Some db) \<and>
    json_get_string (Some body) (Some ''data'') (Some 8192) = Inr v"
proof -
  let ?body = "''{'' @ jstr ''data'' (escape_ref v) @ ''}''"
  have v: "length v < 8192" "nonul v" using json_get_string_length [OF assms(6)] by auto
  have esc: "json_escape (Some (HTTP_MAX_BODY_SIZE + 128)) (Some v) = Some (escape_ref v)"
    using assms(7) v(1) by (subst json_escape_double [of v 8192]) auto
  have fits: "snprintf_fits (HTTP_MAX_BODY_SIZE + 256) ?body" "length ?body < 10 ^ 10"
    using v(1) length_escape_ref(1) [of v] by (auto simp: snprintf_fits_def jstr_def)
  have "member_ok (jstr ''data'' (escape_ref v)) ''data'' v"
    using v(1) by (intro member_jstr encodes_escape_ref) (auto intro: encodes_plain)
  from json_get_string_flat [OF flat_object_one [OF this], of 8192 "''data''"] v
  have "json_get_string (Some ?body) (Some ''data'') (Some 8192) = Inr v" by simp
  moreover have "api_dispatch sq html now (Some rq) (Some sv) c (Some db) =
      (API_OK, responded 200 ''application/json'' ?body None c, Some db)"
    using assms esc fits(1) send_json_healthy [OF assms(1) fits(2), of "Some db"]
    by (simp add: api_dispatch_def handle_echo_def Let_def)
  ultimately show ?thesis by blast
qed

definition echo_request :: HttpRequest where
  "echo_request = (put_request ''/api/echo'' (''{'' @ jstr ''data'' ''hi'' @ ''}''))\<lparr>rq_method := HTTP_POST\<rparr>"

theorem api_echo_roundtrip_witness:
  "\<exists>body. api_dispatch engine [] 5 (Some echo_request) (Some (sample_server (Some empty_rdb))) plain_conn (Some empty_rdb) =
      (API_OK, responded 200 ''application/json'' body None plain_conn, Some empty_rdb) \<and>
    json_get_string (Some body) (Some ''data'') (Some 8192) = Inr ''hi''"
proof (rule api_echo_roundtrip)
  show "server_auth_check (Some (sample_server (Some empty_rdb))) (Some echo_request) = API_OK"
    by (subst server_auth_check_cases) (simp_all add: sample_server_def echo_request_def put_request_def)
  show "api_require_json (Some echo_request) True = API_OK" by code_simp
  show "json_get_string (rq_body echo_request) (Some ''data'') (Some HTTP_MAX_BODY_SIZE) = Inr ''hi''" by code_simp
  show "list_all escapable ''hi''" by code_simp
qed (simp_all add: plain_conn_def echo_request_def put_request_def)

text \<open>C35: note ids survive the trip through a path: the decimal rendering of any id that
  the store can hand out, appended to the notes route, parses back to that id; and
  whatever path is accepted, the id is positive and fits a \<open>long\<close>.\<close>

theorem note_id_path_roundtrip:
  "(0 < n \<and> int n \<le> LONG_MAX \<longrightarrow> parse_note_id (''/api/notes/'' @ show_nat n) = Inr (int n)) \<and>
   (parse_note_id p = Inr i \<longrightarrow> prefix ''/api/notes/'' p \<and> 0 < i \<and> i \<le> LONG_MAX)"
proof (intro conjI impI)
  assume n: "0 < n \<and> int n \<le> LONG_MAX"
  have "CHR ''/'' \<notin> set (show_nat n)" using show_nat_digits [of "CHR ''/''" n] by (auto simp: isdigit_def)
  then have "strchr (show_nat n) CHR ''/'' = None" by (simp add: strchr_None)
  moreover have "strtol (show_nat n) = (int n, [], False)" using strtol_show_nat [of n "[]"] n by simp
  ultimately show "parse_note_id (''/api/notes/'' @ show_nat n) = Inr (int n)"
    using n show_nat_nonempty [of n, symmetric] by (simp add: parse_note_id_def Let_def strncmp_eq_def del: show_nat_nonempty)
next
  assume a: "parse_note_id p = Inr i"
  then show "prefix ''/api/notes/'' p"
    using strncmp_eq_prefix [of p "''/api/notes/''"] by (simp add: parse_note_id_def Let_def split: if_splits)
  from a show "0 < i" by (auto simp: parse_note_id_def Let_def split: if_splits prod.splits)
  from a obtain s r e where "strtol s = (i, r, e)"
    by (auto simp: parse_note_id_def Let_def split: if_splits prod.splits)
  then show "i \<le> LONG_MAX" using strtol_range by blast
qed

theorem note_id_path_roundtrip_witness:
  "parse_note_id (''/api/notes/'' @ show_nat 42) = Inr 42"
  using note_id_path_roundtrip [of 42 "''/api/notes/42''" 42] by simp

text \<open>A number that does not fit a \<open>long\<close> is not rejected but read as the
  largest \<open>long\<close>: \<open>parse_note_id\<close> does not look at \<open>errno\<close>.\<close>

theorem note_id_saturates:
  "parse_note_id ''/api/notes/99999999999999999999'' = Inr LONG_MAX"
  by code_simp

end
