(* ===== verification/Server_Laws.thy ===== *)
theory Server_Laws
  imports Server Api_Laws
begin

text \<open>
  Every interleaving of the acceptor, the workers and \<open>server_stop\<close>: no
  descriptor is lost, closed twice or served by two workers, the counters add up, no
  wake-up is lost, and a stopping server drains its queue and returns.  The invariant has
  four parts: \<open>fd_inv\<close> (descriptors), \<open>count_inv\<close> (counters), \<open>stop_inv\<close>
  (shutdown), \<open>sleep_inv\<close> (workers asleep on the condition variable of the queue).
\<close>

section \<open>The invariant\<close>

fun wk_fds :: "worker \<Rightarrow> int list" where
  "wk_fds (WkBusy fd) = [fd]"
| "wk_fds (WkServed fd) = [fd]"
| "wk_fds _ = []"

fun ac_fds :: "acceptor \<Rightarrow> int list" where
  "ac_fds (AcPush fd) = [fd]"
| "ac_fds _ = []"

text \<open>The descriptors the program holds: queued, with a worker, or with the acceptor.\<close>

definition held :: "'db world \<Rightarrow> int multiset" where
  "held w = mset (ring_contents (sv_queue (w_server w))) + mset (concat (map wk_fds (w_workers w))) +
     mset (ac_fds (w_acceptor w))"

definition fd_inv :: "'db world \<Rightarrow> bool" where
  "fd_inv w \<longleftrightarrow> ring_inv (sv_queue (w_server w)) \<and> mset (w_open w) = held w \<and> distinct (w_open w) \<and>
     (\<forall>fd \<in> set (w_open w). 0 \<le> fd) \<and> mset (w_accepted w) = mset (w_open w) + mset (w_closed w)"

definition counting :: "worker list \<Rightarrow> nat" where
  "counting ks = length (filter (\<lambda>k. k = WkCount) ks)"

definition count_inv :: "'db world \<Rightarrow> bool" where
  "count_inv w \<longleftrightarrow>
     (let ss = sv_stats (w_server w)
      in ss_accepted ss = of_nat (length (w_accepted w)) \<and>
         ss_dropped ss + ss_handled ss + of_nat (counting (w_workers w)) = of_nat (length (w_closed w)))"

definition drained :: "'db world \<Rightarrow> bool" where
  "drained w \<longleftrightarrow> q_closed (sv_queue (w_server w)) \<and> ring_contents (sv_queue (w_server w)) = []"

definition stop_inv :: "'db world \<Rightarrow> bool" where
  "stop_inv w \<longleftrightarrow> (WkDone \<in> set (w_workers w) \<longrightarrow> drained w) \<and>
     (w_acceptor w \<in> {AcJoin, AcDone} \<longrightarrow> q_closed (sv_queue (w_server w))) \<and>
     (w_acceptor w = AcDone \<longrightarrow> (\<forall>k \<in> set (w_workers w). k = WkDone))"

text \<open>The array of 64 bytes holds every peer, as an IPv4 address has at most 15 characters.\<close>

lemma format_peer_complete:
  assumes "length ip \<le> 15"
  shows "format_peer (Some ip) sin_port 64 = ip @ '':'' @ show_nat (unat sin_port)"
proof -
  have "unat sin_port < 65536" using unsigned_less [of sin_port, where ?'a = nat] by simp
  then have "length (show_nat (unat sin_port)) \<le> 5" using length_show_nat_less [of 5 "unat sin_port"] by simp
  then show ?thesis using assms by (simp add: format_peer_def snprintf_fits_def)
qed

lemma set_timeouts_five_seconds:
  "set_timeouts setsockopt \<longleftrightarrow> setsockopt SO_RCVTIMEO (5, 0) \<and> setsockopt SO_SNDTIMEO (5, 0)"
  by (simp add: set_timeouts_def)

lemma worker_at_split:
  assumes "worker_at w i = Some k"
  obtains us vs where "w_workers w = us @ k # vs" "\<And>k'. (w_workers w)[i := k'] = us @ k' # vs"
proof -
  have i: "i < length (w_workers w)" "w_workers w ! i = k" using assms by (auto simp: worker_at_def split: if_splits)
  then have "w_workers w = take i (w_workers w) @ k # drop (Suc i) (w_workers w)" by (metis id_take_nth_drop)
  moreover have "(w_workers w)[i := k'] = take i (w_workers w) @ k' # drop (Suc i) (w_workers w)" for k'
    using i(1) by (rule upd_conv_take_nth_drop)
  ultimately show ?thesis using that by blast
qed

lemma handle_client_frame:
  assumes "handle_client sq html now t m sv c = (sv', c')"
  shows "sv_queue sv' = sv_queue sv" "sv_stop_requested sv' = sv_stop_requested sv"
    "ss_accepted (sv_stats sv') = ss_accepted (sv_stats sv)" "ss_dropped (sv_stats sv') = ss_dropped (sv_stats sv)"
    "ss_handled (sv_stats sv') = ss_handled (sv_stats sv)"
  using assms
  by (auto simp: handle_client_def with_stats_def count_errors_def count_request_def count_http_error_def Let_def
      split: if_splits prod.splits sum.splits)

lemmas count_defs = with_stats_def count_accepted_def count_dropped_def count_handled_def count_error_def stats_bump_def

text \<open>The moves of the threads themselves, as opposed to \<open>server_stop\<close> from outside
  and wake-ups without a signal.\<close>

fun own_move :: "event \<Rightarrow> bool" where
  "own_move EvStopFlag = False"
| "own_move EvStopClose = False"
| "own_move (EvWake i) = False"
| "own_move _ = True"

fun wake_up :: "event \<Rightarrow> bool" where
  "wake_up (EvWake i) = True"
| "wake_up _ = False"

text \<open>The effect of an event, thread by thread.\<close>

lemma push_effect:
  assumes "ring_inv q" "queue_try_push chosen q fd = (ok, q')"
  shows "ring_inv q'" "ring_contents q' = ring_contents q @ (if ok then [fd] else [])" "q_closed q' = q_closed q"
    "ok \<Longrightarrow> \<not> q_closed q" "q_not_empty q' = (if ok then cond_signal chosen (q_not_empty q) else q_not_empty q)"
    "q_capacity q' = q_capacity q"
  using cq.push_cases [OF assms] by auto

lemma pop_effect:
  assumes "ring_inv q" "queue_pop self q = (r, q')"
  shows "ring_inv q'" "q_closed q' = q_closed q"
    "r = PopFd fd \<Longrightarrow> ring_contents q = fd # ring_contents q'"
    "r = PopClosed \<Longrightarrow> ring_contents q = [] \<and> ring_contents q' = [] \<and> q_closed q"
    "r = PopWait \<Longrightarrow> ring_contents q = [] \<and> ring_contents q' = [] \<and> \<not> q_closed q"
    "q_not_empty q' = (if r = PopWait then q_not_empty q @ [self] else q_not_empty q)"
    "q_capacity q' = q_capacity q"
proof -
  note c = cq.pop_cases [OF assms]
  show "ring_inv q'" "q_closed q' = q_closed q" by (fact c(1,2))+
  show "r = PopFd fd \<Longrightarrow> ring_contents q = fd # ring_contents q'" using c(4) by simp
  show "r = PopClosed \<Longrightarrow> ring_contents q = [] \<and> ring_contents q' = [] \<and> q_closed q" using c(4,5) by simp
  show "r = PopWait \<Longrightarrow> ring_contents q = [] \<and> ring_contents q' = [] \<and> \<not> q_closed q" using c(4,6) by simp
  show "q_not_empty q' = (if r = PopWait then q_not_empty q @ [self] else q_not_empty q)" "q_capacity q' = q_capacity q"
    by (fact c(7,3))+
qed

lemma close_effect [simp]:
  "ring_inv q \<Longrightarrow> ring_inv (queue_close q)" "ring_contents (queue_close q) = ring_contents q" "q_closed (queue_close q)"
  "q_not_empty (queue_close q) = []" "q_capacity (queue_close q) = q_capacity q"
  by (simp_all add: queue_close_def cond_broadcast_def ring_inv_def ring_contents_def)

lemma wake_thread_simps [simp]:
  "ring_inv (wake_thread i q) = ring_inv q" "ring_contents (wake_thread i q) = ring_contents q"
  "q_closed (wake_thread i q) = q_closed q" "q_not_empty (wake_thread i q) = remove1 i (q_not_empty q)"
  "q_capacity (wake_thread i q) = q_capacity q"
  by (simp_all add: wake_thread_def ring_inv_def ring_contents_def)

lemma acceptor_step_fd:
  assumes "fd_inv w" "acceptor_step ev w = Some w'"
  shows "fd_inv w'"
proof -
  have r: "ring_inv (sv_queue (w_server w))" using assms(1) by (simp add: fd_inv_def)
  show ?thesis
  proof (cases ev)
    case (EvPush chosen)
    then obtain fd where fd: "w_acceptor w = AcPush fd" using assms(2) by (auto split: acceptor.splits)
    obtain ok q where push: "queue_try_push chosen (sv_queue (w_server w)) fd = (ok, q)" by fastforce
    note eff = push_effect [OF r push]
    have "fd \<in># mset (w_open w)" using assms(1) fd by (simp add: fd_inv_def held_def)
    then show ?thesis using assms EvPush fd push eff
      by (cases ok) (auto simp: fd_inv_def held_def close_fd_def with_stats_def ac_simps)
  qed (use assms in \<open>auto simp: fd_inv_def held_def count_defs split: if_splits\<close>)
qed

text \<open>The steps of a worker: which worker, what it did, what became of the queue.\<close>

lemma worker_step_cases:
  assumes "worker_step sq html ev w = Some w'"
  obtains
    (slept) i q where "worker_at w i = Some WkPop" "i \<notin> set (q_not_empty (sv_queue (w_server w)))"
      "queue_pop i (sv_queue (w_server w)) = (PopWait, q)" "w' = w\<lparr>w_server := (w_server w)\<lparr>sv_queue := q\<rparr>\<rparr>" "ev = EvPop i"
  | (woken) i where "i \<in> set (q_not_empty (sv_queue (w_server w)))"
      "w' = w\<lparr>w_server := (w_server w)\<lparr>sv_queue := wake_thread i (sv_queue (w_server w))\<rparr>\<rparr>" "ev = EvWake i"
  | (wait_over) i q where "worker_at w i = Some WkPop" "queue_pop i (sv_queue (w_server w)) = (PopClosed, q)"
      "w' = set_worker i WkDone (w\<lparr>w_server := (w_server w)\<lparr>sv_queue := q\<rparr>\<rparr>)" "own_move ev"
  | (took) i q fd where "worker_at w i = Some WkPop" "queue_pop i (sv_queue (w_server w)) = (PopFd fd, q)"
      "w' = set_worker i (if fd < 0 then WkDone else WkBusy fd) (w\<lparr>w_server := (w_server w)\<lparr>sv_queue := q\<rparr>\<rparr>)"
      "i \<notin> set (q_not_empty (sv_queue (w_server w)))" "own_move ev"
  | (served) i fd now t m sv c where "worker_at w i = Some (WkBusy fd)"
      "handle_client sq html now t m (w_server w) (w_conns w fd) = (sv, c)"
      "w' = set_worker i (WkServed fd) (w\<lparr>w_server := sv, w_conns := (w_conns w)(fd := c)\<rparr>)" "own_move ev"
  | (closed) i fd where "worker_at w i = Some (WkServed fd)" "w' = close_fd fd (set_worker i WkCount w)" "own_move ev"
  | (counted) i where "worker_at w i = Some WkCount"
      "w' = set_worker i WkPop (w\<lparr>w_server := with_stats count_handled (w_server w)\<rparr>)" "own_move ev"
proof (cases ev)
  case (EvPop i)
  with assms that(1,3,4) show ?thesis
    by (auto split: if_splits prod.splits pop_result.splits)
next
  case (EvWake i)
  with assms that(2) show ?thesis by (auto split: if_splits)
next
  case (EvServe i now t m)
  with assms that(5) show ?thesis by (fastforce split: option.splits worker.splits prod.splits)
next
  case (EvClose i)
  with assms that(6) show ?thesis by (fastforce split: option.splits worker.splits)
next
  case (EvCount i)
  with assms that(7) show ?thesis by (auto split: if_splits)
qed (use assms in auto)

lemma set_worker_simps [simp]:
  "w_server (set_worker i k w) = w_server w" "w_acceptor (set_worker i k w) = w_acceptor w"
  "w_open (set_worker i k w) = w_open w" "w_accepted (set_worker i k w) = w_accepted w"
  "w_closed (set_worker i k w) = w_closed w" "w_workers (set_worker i k w) = (w_workers w)[i := k]"
  "w_stopping (set_worker i k w) = w_stopping w"
  by (simp_all add: set_worker_def)

lemma close_fd_simps [simp]:
  "w_server (close_fd fd w) = w_server w" "w_acceptor (close_fd fd w) = w_acceptor w"
  "w_workers (close_fd fd w) = w_workers w" "w_accepted (close_fd fd w) = w_accepted w"
  "w_stopping (close_fd fd w) = w_stopping w"
  "w_open (close_fd fd w) = remove1 fd (w_open w)" "w_closed (close_fd fd w) = w_closed w @ [fd]"
  by (simp_all add: close_fd_def)

lemma taken_nonneg:
  assumes "fd_inv w" "ring_contents (sv_queue (w_server w)) = fd # fds"
  shows "0 \<le> fd"
proof -
  have "fd \<in># held w" using assms(2) by (simp add: held_def)
  then show ?thesis using assms(1) unfolding fd_inv_def by (metis set_mset_mset)
qed

lemma worker_step_fd:
  assumes "fd_inv w" "worker_step sq html ev w = Some w'"
  shows "fd_inv w'"
proof -
  have r: "ring_inv (sv_queue (w_server w))" using assms(1) by (simp add: fd_inv_def)
  from assms(2) show ?thesis
  proof (cases rule: worker_step_cases)
    case (slept i q)
    then show ?thesis using assms(1) pop_effect [OF r slept(3)] by (simp add: fd_inv_def held_def)
  next
    case (woken i)
    then show ?thesis using assms(1) by (simp add: fd_inv_def held_def)
  next
    case (wait_over i q)
    note eff = pop_effect [OF r wait_over(2)]
    from worker_at_split [OF wait_over(1)] obtain us vs where
      ws: "w_workers w = us @ WkPop # vs" "\<And>k. (w_workers w)[i := k] = us @ k # vs" by blast
    then show ?thesis using assms(1) wait_over(3) eff(1,4) by (simp add: fd_inv_def held_def)
  next
    case (took i q fd)
    note eff = pop_effect [OF r took(2)]
    from worker_at_split [OF took(1)] obtain us vs where
      ws: "w_workers w = us @ WkPop # vs" "\<And>k. (w_workers w)[i := k] = us @ k # vs" by blast
    have c: "ring_contents (sv_queue (w_server w)) = fd # ring_contents q" using eff(3) by simp
    then have "\<not> fd < 0" using taken_nonneg [OF assms(1) c] by simp
    then show ?thesis using assms(1) took(3) eff(1) c ws by (simp add: fd_inv_def held_def ac_simps)
  next
    case (served i fd now t m sv c)
    from worker_at_split [OF served(1)] obtain us vs where
      ws: "w_workers w = us @ WkBusy fd # vs" "\<And>k. (w_workers w)[i := k] = us @ k # vs" by blast
    then show ?thesis using assms(1) served(3) handle_client_frame(1) [OF served(2)]
      by (simp add: fd_inv_def held_def)
  next
    case (closed i fd)
    from worker_at_split [OF closed(1)] obtain us vs where
      ws: "w_workers w = us @ WkServed fd # vs" "\<And>k. (w_workers w)[i := k] = us @ k # vs" by blast
    then have "fd \<in># held w" by (simp add: held_def)
    then have "fd \<in> set (w_open w)" using assms(1) unfolding fd_inv_def by (metis set_mset_mset)
    then show ?thesis using assms(1) closed(2) ws
      by (auto simp: fd_inv_def held_def ac_simps dest: notin_set_remove1 [rotated])
  next
    case (counted i)
    from worker_at_split [OF counted(1)] obtain us vs where
      ws: "w_workers w = us @ WkCount # vs" "\<And>k. (w_workers w)[i := k] = us @ k # vs" by blast
    then show ?thesis using assms(1) counted(2) by (simp add: fd_inv_def held_def with_stats_def)
  qed
qed

lemma stop_step_fd: "fd_inv w \<Longrightarrow> stop_step ev w = Some w' \<Longrightarrow> fd_inv w'"
  by (cases ev) (auto simp: fd_inv_def held_def split: if_splits)

lemma server_step_cases:
  assumes "server_step sq html ev w = Some w'"
  obtains "acceptor_step ev w = Some w'" | "worker_step sq html ev w = Some w'" | "stop_step ev w = Some w'"
  using assms by (auto simp: server_step_def split: option.splits)

lemma server_step_fd: "fd_inv w \<Longrightarrow> server_step sq html ev w = Some w' \<Longrightarrow> fd_inv w'"
  by (elim server_step_cases) (auto intro: acceptor_step_fd worker_step_fd stop_step_fd)

text \<open>The counters.\<close>

lemma counting_split [simp]: "counting (us @ k # vs) = counting us + (if k = WkCount then 1 else 0) + counting vs"
  by (simp add: counting_def)

lemma acceptor_step_count:
  assumes "count_inv w" "acceptor_step ev w = Some w'"
  shows "count_inv w'"
proof (cases ev)
  case (EvPush chosen)
  then obtain fd where fd: "w_acceptor w = AcPush fd" using assms(2) by (auto split: acceptor.splits)
  obtain ok q where "queue_try_push chosen (sv_queue (w_server w)) fd = (ok, q)" by fastforce
  then show ?thesis using assms EvPush fd
    by (cases ok) (auto simp: count_inv_def Let_def count_defs algebra_simps)
qed (use assms in \<open>auto simp: count_inv_def Let_def count_defs split: if_splits\<close>)

lemma worker_step_count:
  assumes "count_inv w" "worker_step sq html ev w = Some w'"
  shows "count_inv w'"
  using assms(2)
proof (cases rule: worker_step_cases)
  case (slept i q)
  then show ?thesis using assms(1) by (simp add: count_inv_def Let_def)
next
  case (woken i)
  then show ?thesis using assms(1) by (simp add: count_inv_def Let_def)
next
  case (wait_over i q)
  from worker_at_split [OF wait_over(1)] obtain us vs where
    "w_workers w = us @ WkPop # vs" "\<And>k. (w_workers w)[i := k] = us @ k # vs" by blast
  then show ?thesis using assms(1) wait_over(3) by (simp add: count_inv_def Let_def)
next
  case (took i q fd)
  from worker_at_split [OF took(1)] obtain us vs where
    "w_workers w = us @ WkPop # vs" "\<And>k. (w_workers w)[i := k] = us @ k # vs" by blast
  then show ?thesis using assms(1) took(3) by (simp add: count_inv_def Let_def)
next
  case (served i fd now t m sv c)
  from worker_at_split [OF served(1)] obtain us vs where
    "w_workers w = us @ WkBusy fd # vs" "\<And>k. (w_workers w)[i := k] = us @ k # vs" by blast
  then show ?thesis using assms(1) served(3) handle_client_frame [OF served(2)] by (simp add: count_inv_def Let_def)
next
  case (closed i fd)
  from worker_at_split [OF closed(1)] obtain us vs where
    "w_workers w = us @ WkServed fd # vs" "\<And>k. (w_workers w)[i := k] = us @ k # vs" by blast
  then show ?thesis using assms(1) closed(2) by (simp add: count_inv_def Let_def algebra_simps)
next
  case (counted i)
  from worker_at_split [OF counted(1)] obtain us vs where
    "w_workers w = us @ WkCount # vs" "\<And>k. (w_workers w)[i := k] = us @ k # vs" by blast
  then show ?thesis using assms(1) counted(2) by (simp add: count_inv_def Let_def count_defs algebra_simps)
qed

lemma server_step_count: "count_inv w \<Longrightarrow> server_step sq html ev w = Some w' \<Longrightarrow> count_inv w'"
proof (elim server_step_cases)
  assume "count_inv w" "stop_step ev w = Some w'"
  then show "count_inv w'" by (cases ev) (auto simp: count_inv_def Let_def split: if_splits)
qed (auto intro: acceptor_step_count worker_step_count)

text \<open>Shutdown.\<close>

lemma acceptor_step_stop:
  assumes "fd_inv w" "stop_inv w" "acceptor_step ev w = Some w'"
  shows "stop_inv w'"
proof (cases ev)
  case (EvPush chosen)
  then obtain fd where fd: "w_acceptor w = AcPush fd" using assms(3) by (auto split: acceptor.splits)
  obtain ok q where push: "queue_try_push chosen (sv_queue (w_server w)) fd = (ok, q)" by fastforce
  have r: "ring_inv (sv_queue (w_server w))" using assms(1) by (simp add: fd_inv_def)
  show ?thesis using assms(2,3) EvPush fd push push_effect [OF r push]
    by (cases ok) (auto simp: stop_inv_def drained_def with_stats_def)
qed (use assms in \<open>auto simp: stop_inv_def drained_def with_stats_def list_all_iff split: if_splits\<close>)

lemma worker_step_stop:
  assumes "fd_inv w" "stop_inv w" "worker_step sq html ev w = Some w'"
  shows "stop_inv w'"
proof -
  have r: "ring_inv (sv_queue (w_server w))" using assms(1) by (simp add: fd_inv_def)
  from assms(3) show ?thesis
  proof (cases rule: worker_step_cases)
    case (slept i q)
    then show ?thesis using assms(2) pop_effect [OF r slept(3)] by (simp add: stop_inv_def drained_def)
  next
    case (woken i)
    then show ?thesis using assms(2) by (simp add: stop_inv_def drained_def)
  next
    case (wait_over i q)
    note eff = pop_effect [OF r wait_over(2)]
    from worker_at_split [OF wait_over(1)] obtain us vs where
      "w_workers w = us @ WkPop # vs" "\<And>k. (w_workers w)[i := k] = us @ k # vs" by blast
    then show ?thesis using assms(2) wait_over(3) eff by (auto simp: stop_inv_def drained_def)
  next
    case (took i q fd)
    note eff = pop_effect [OF r took(2)]
    have c: "ring_contents (sv_queue (w_server w)) = fd # ring_contents q" using eff(3) by simp
    then have "\<not> fd < 0" using taken_nonneg [OF assms(1) c] by simp
    moreover from worker_at_split [OF took(1)] obtain us vs where
      "w_workers w = us @ WkPop # vs" "\<And>k. (w_workers w)[i := k] = us @ k # vs" by blast
    ultimately show ?thesis using assms(2) took(3) eff(2) c by (auto simp: stop_inv_def drained_def)
  next
    case (served i fd now t m sv c)
    from worker_at_split [OF served(1)] obtain us vs where
      "w_workers w = us @ WkBusy fd # vs" "\<And>k. (w_workers w)[i := k] = us @ k # vs" by blast
    then show ?thesis using assms(2) served(3) handle_client_frame [OF served(2)]
      by (auto simp: stop_inv_def drained_def)
  next
    case (closed i fd)
    from worker_at_split [OF closed(1)] obtain us vs where
      "w_workers w = us @ WkServed fd # vs" "\<And>k. (w_workers w)[i := k] = us @ k # vs" by blast
    then show ?thesis using assms(2) closed(2) by (auto simp: stop_inv_def drained_def)
  next
    case (counted i)
    from worker_at_split [OF counted(1)] obtain us vs where
      "w_workers w = us @ WkCount # vs" "\<And>k. (w_workers w)[i := k] = us @ k # vs" by blast
    then show ?thesis using assms(2) counted(2) by (auto simp: stop_inv_def drained_def with_stats_def)
  qed
qed

lemma server_step_stop: "fd_inv w \<Longrightarrow> stop_inv w \<Longrightarrow> server_step sq html ev w = Some w' \<Longrightarrow> stop_inv w'"
proof (elim server_step_cases)
  assume "stop_inv w" "stop_step ev w = Some w'"
  then show "stop_inv w'" by (cases ev) (auto simp: stop_inv_def drained_def split: if_splits)
qed (auto intro: acceptor_step_stop worker_step_stop)

declare length_ring_contents [simp del]

text \<open>Sleeping workers: each of them is at its pop, nobody sleeps on a closed queue, and
  while somebody sleeps there is an awake worker at its pop for every queued connection.\<close>

definition popping :: "worker list \<Rightarrow> nat" where
  "popping ks = length (filter (\<lambda>k. k = WkPop) ks)"

definition sleep_inv :: "'db world \<Rightarrow> bool" where
  "sleep_inv w \<longleftrightarrow>
     (let q = sv_queue (w_server w)
      in distinct (q_not_empty q) \<and> (\<forall>i \<in> set (q_not_empty q). worker_at w i = Some WkPop) \<and>
         (q_closed q \<longrightarrow> q_not_empty q = []) \<and>
         (q_not_empty q \<noteq> [] \<longrightarrow> length (ring_contents q) + length (q_not_empty q) \<le> popping (w_workers w)))"

lemma popping_split [simp]: "popping (us @ k # vs) = popping us + (if k = WkPop then 1 else 0) + popping vs"
  by (simp add: popping_def)

lemma popping_card: "popping ks = card {i. i < length ks \<and> ks ! i = WkPop}"
  by (simp add: popping_def length_filter_conv_card)

text \<open>Distinct workers at their pop are at most as many as there are.\<close>

lemma sleepers_bound:
  assumes "distinct xs" and "\<forall>i \<in> set xs. worker_at w i = Some WkPop"
  shows "length xs \<le> popping (w_workers w)" "length xs \<le> length (w_workers w)"
proof -
  have "set xs \<subseteq> {i. i < length (w_workers w) \<and> w_workers w ! i = WkPop}"
    using assms(2) by (auto simp: worker_at_def split: if_splits)
  then have "card (set xs) \<le> popping (w_workers w)" unfolding popping_card by (intro card_mono) auto
  then show "length xs \<le> popping (w_workers w)" using assms(1) by (simp add: distinct_card)
  also have "popping (w_workers w) \<le> length (w_workers w)" by (simp add: popping_def)
  finally show "length xs \<le> length (w_workers w)" .
qed

lemma worker_at_update:
  "worker_at w i = Some k \<Longrightarrow> w_workers w' = (w_workers w)[i := k'] \<Longrightarrow>
   worker_at w' j = (if j = i then Some k' else worker_at w j)"
  by (auto simp: worker_at_def split: if_splits)

text \<open>A worker that is not asleep moves on: the sleepers stay, and fewer connections
  than before are queued by as many as workers left their pop.\<close>

lemma sleep_inv_moved:
  assumes "sleep_inv w" and "worker_at w i = Some k" and "w_workers w' = (w_workers w)[i := k']"
    and "i \<notin> set (q_not_empty (sv_queue (w_server w)))"
    and "q_not_empty (sv_queue (w_server w')) = q_not_empty (sv_queue (w_server w))"
    and "q_closed (sv_queue (w_server w')) = q_closed (sv_queue (w_server w))"
    and "length (ring_contents (sv_queue (w_server w'))) + (if k = WkPop then 1 else 0) \<le>
      length (ring_contents (sv_queue (w_server w))) + (if k' = WkPop then 1 else 0)"
  shows "sleep_inv w'"
proof -
  from worker_at_split [OF assms(2)] obtain us vs where
    ws: "w_workers w = us @ k # vs" "\<And>k'. (w_workers w)[i := k'] = us @ k' # vs" by blast
  have at: "worker_at w' j = worker_at w j" if "j \<in> set (q_not_empty (sv_queue (w_server w)))" for j
    using worker_at_update [OF assms(2,3)] that assms(4) by auto
  show ?thesis using assms(1,3,5-7) at ws by (auto simp: sleep_inv_def Let_def split: if_splits)
qed

lemma sleep_inv_no_sleeper: "q_not_empty (sv_queue (w_server w)) = [] \<Longrightarrow> sleep_inv w"
  by (simp add: sleep_inv_def)

lemma worker_at_cong: "w_workers w' = w_workers w \<Longrightarrow> worker_at w' i = worker_at w i"
  by (simp add: worker_at_def)

text \<open>Steps that leave the workers and the queue alone.\<close>

lemma sleep_inv_cong:
  assumes "sleep_inv w" "w_workers w' = w_workers w" "sv_queue (w_server w') = sv_queue (w_server w)"
  shows "sleep_inv w'"
  using assms by (simp add: sleep_inv_def Let_def worker_at_cong [OF assms(2)])

lemma push_sleep:
  assumes "sleep_inv w" "ring_inv (sv_queue (w_server w))" "queue_try_push chosen (sv_queue (w_server w)) fd = (ok, q)"
    and "w_workers w' = w_workers w" "sv_queue (w_server w') = q"
  shows "sleep_inv w'"
proof (cases "ok \<and> q_not_empty (sv_queue (w_server w)) \<noteq> []")
  case True
  note eff = push_effect [OF assms(2,3)]
  obtain us i vs where c: "q_not_empty (sv_queue (w_server w)) = us @ i # vs" "q_not_empty q = us @ vs"
    using True eff(5) cond_signal_wakes_one by metis
  show ?thesis using assms(1,4,5) True eff(2-4) c
    by (auto simp: sleep_inv_def Let_def worker_at_cong [OF assms(4)])
next
  case False
  with push_effect [OF assms(2,3)] assms(1,4,5) show ?thesis
    by (auto simp: sleep_inv_def Let_def worker_at_cong [OF assms(4)])
qed

lemma acceptor_step_sleep:
  assumes "fd_inv w" "sleep_inv w" "acceptor_step ev w = Some w'"
  shows "sleep_inv w'"
proof (cases ev)
  case (EvPush chosen)
  then obtain fd where fd: "w_acceptor w = AcPush fd" using assms(3) by (auto split: acceptor.splits)
  obtain ok q where push: "queue_try_push chosen (sv_queue (w_server w)) fd = (ok, q)" by fastforce
  have r: "ring_inv (sv_queue (w_server w))" using assms(1) by (simp add: fd_inv_def)
  show ?thesis using assms(3) EvPush fd push
    by (intro push_sleep [OF assms(2) r push]) (auto simp: with_stats_def split: bool.splits)
next
  case EvDrain
  then show ?thesis using assms(3) by (intro sleep_inv_no_sleeper) (auto split: if_splits)
qed (use assms in \<open>auto simp: with_stats_def split: if_splits elim: sleep_inv_cong\<close>)

lemma worker_step_sleep:
  assumes "fd_inv w" "sleep_inv w" "worker_step sq html ev w = Some w'"
  shows "sleep_inv w'"
proof -
  have r: "ring_inv (sv_queue (w_server w))" using assms(1) by (simp add: fd_inv_def)
  have at: "worker_at w i = Some WkPop" if "i \<in> set (q_not_empty (sv_queue (w_server w)))" for i
    using assms(2) that by (simp add: sleep_inv_def Let_def)
  from assms(3) show ?thesis
  proof (cases rule: worker_step_cases)
    case (slept i q)
    note eff = pop_effect [OF r slept(3)]
    have ws: "w_workers w' = w_workers w" "sv_queue (w_server w') = q" using slept(4) by simp_all
    have s: "distinct (q_not_empty q)" "\<forall>j \<in> set (q_not_empty q). worker_at w j = Some WkPop"
      using assms(2) slept(1,2) eff(6) by (auto simp: sleep_inv_def Let_def)
    have "length (q_not_empty q) \<le> popping (w_workers w)" using sleepers_bound [OF s] by blast
    then show ?thesis using s ws eff by (simp add: sleep_inv_def Let_def worker_at_cong [OF ws(1)])
  next
    case (woken i)
    let ?q = "wake_thread i (sv_queue (w_server w))"
    have ws: "w_workers w' = w_workers w" "sv_queue (w_server w') = ?q" using woken(2) by simp_all
    have "length (q_not_empty ?q) \<le> length (q_not_empty (sv_queue (w_server w)))" by (simp add: length_remove1)
    then show ?thesis using assms(2) woken(1) ws
      by (auto simp: sleep_inv_def Let_def worker_at_cong [OF ws(1)])
  next
    case (wait_over i q)
    note eff = pop_effect [OF r wait_over(2)]
    then have "q_not_empty q = []" using assms(2) by (simp add: sleep_inv_def Let_def)
    then show ?thesis using wait_over(3) by (intro sleep_inv_no_sleeper) simp
  next
    case (took i q fd)
    note eff = pop_effect [OF r took(2)]
    have "ring_contents (sv_queue (w_server w)) = fd # ring_contents q" using eff(3) by simp
    then show ?thesis using took(3,4) eff(2,6)
      by (intro sleep_inv_moved [OF assms(2) took(1)]) auto
  next
    case (served i fd now t m sv c)
    then show ?thesis using handle_client_frame [OF served(2)] at
      by (intro sleep_inv_moved [OF assms(2) served(1)]) auto
  next
    case (closed i fd)
    then show ?thesis using at by (intro sleep_inv_moved [OF assms(2) closed(1)]) auto
  next
    case (counted i)
    then show ?thesis using at by (intro sleep_inv_moved [OF assms(2) counted(1)]) (auto simp: with_stats_def)
  qed
qed

lemma server_step_sleep: "fd_inv w \<Longrightarrow> sleep_inv w \<Longrightarrow> server_step sq html ev w = Some w' \<Longrightarrow> sleep_inv w'"
proof (elim server_step_cases)
  assume "sleep_inv w" "stop_step ev w = Some w'"
  then show "sleep_inv w'"
    by (cases ev) (auto split: if_splits intro: sleep_inv_no_sleeper elim: sleep_inv_cong)
qed (auto intro: acceptor_step_sleep worker_step_sleep)

section \<open>Runs\<close>

text \<open>A server as \<open>server_create\<close> leaves it.\<close>

definition fresh_server :: "'db Server \<Rightarrow> bool" where
  "fresh_server sv \<longleftrightarrow> ring_inv (sv_queue sv) \<and> ring_contents (sv_queue sv) = [] \<and> \<not> q_closed (sv_queue sv) \<and>
     q_not_empty (sv_queue sv) = [] \<and> \<not> sv_stop_requested sv \<and> sv_stats sv = zero_stats"

lemma server_run_start_inv:
  assumes "fresh_server sv" "server_run_start env calloc_ok created (Some sv) = Inr w0"
  shows "fd_inv w0" "count_inv w0" "stop_inv w0" "sleep_inv w0"
proof -
  have "concat (map wk_fds (replicate n WkPop)) = []" "counting (replicate n WkPop) = 0" for n
    by (induction n) (auto simp: counting_def)
  then show "fd_inv w0" "count_inv w0" "stop_inv w0" "sleep_inv w0"
    using assms
    by (auto simp: sleep_inv_def server_run_start_def fresh_server_def fd_inv_def held_def count_inv_def stop_inv_def zero_stats_def
        Let_def split: prod.splits if_splits)
qed

lemma server_runs_inv:
  "server_runs sq html w0 evs w \<Longrightarrow> fd_inv w0 \<Longrightarrow> count_inv w0 \<Longrightarrow> stop_inv w0 \<Longrightarrow> sleep_inv w0 \<Longrightarrow>
   fd_inv w \<and> count_inv w \<and> stop_inv w \<and> sleep_inv w"
  by (induction rule: server_runs.induct) (blast intro: server_step_fd server_step_count server_step_stop server_step_sleep)+

lemma server_create_fresh:
  assumes "server_create sq env (Some cf) = Some sv"
  shows "fresh_server sv" "sv_config sv = cf" "server_config_validate (Some cf)"
  using assms
  by (auto simp: server_create_def fresh_server_def Let_def split: if_splits prod.splits option.splits sum.splits
      dest: queue_init_inv)

lemma server_runs_from_create:
  assumes "server_create sq env (Some cf) = Some sv" "server_run_start lenv calloc_ok created (Some sv) = Inr w0"
    "server_runs sq html w0 evs w"
  shows "fd_inv w" "count_inv w" "stop_inv w" "sleep_inv w"
  using server_runs_inv [OF assms(3) server_run_start_inv [OF server_create_fresh(1) [OF assms(1)] assms(2)]] by blast+

text \<open>Replaying a list of events.\<close>

fun run_events :: "'db sqlite3 \<Rightarrow> bytes \<Rightarrow> event list \<Rightarrow> 'db world \<Rightarrow> 'db world option" where
  "run_events sq html [] w = Some w"
| "run_events sq html (ev # evs) w =
     (case server_step sq html ev w of None \<Rightarrow> None | Some w' \<Rightarrow> run_events sq html evs w')"

lemma server_runs_append:
  "server_runs sq html w0 evs w \<Longrightarrow> run_events sq html evs' w = Some w' \<Longrightarrow> server_runs sq html w0 (evs @ evs') w'"
proof (induction evs' arbitrary: evs w)
  case (Cons ev evs')
  then obtain w1 where "server_step sq html ev w = Some w1" "run_events sq html evs' w1 = Some w'"
    by (auto split: option.splits)
  with Cons.IH [OF runs_step [OF Cons.prems(1)]] show ?case by force
qed simp

lemma run_events_runs: "run_events sq html evs w0 = Some w \<Longrightarrow> server_runs sq html w0 evs w"
  using server_runs_append [OF runs_start] by fastforce

section \<open>Draining\<close>

text \<open>The server is on its way out: the stop flag is set or the acceptor left its loop.\<close>

definition stopping :: "'db world \<Rightarrow> bool" where
  "stopping w \<longleftrightarrow> sv_stop_requested (w_server w) \<or> w_acceptor w \<in> {AcDrain, AcJoin, AcDone}"

fun wk_rank :: "worker \<Rightarrow> nat" where
  "wk_rank WkDone = 0"
| "wk_rank WkPop = 1"
| "wk_rank WkCount = 2"
| "wk_rank (WkServed fd) = 3"
| "wk_rank (WkBusy fd) = 4"

fun ac_rank :: "acceptor \<Rightarrow> nat" where
  "ac_rank AcDone = 0"
| "ac_rank AcJoin = 1"
| "ac_rank AcDrain = 2"
| "ac_rank AcTop = 3"
| "ac_rank (AcPush fd) = 9"
| "ac_rank AcAccept = 10"
| "ac_rank AcPoll = 11"

text \<open>What is left to do.  The third part counts the times a worker can still fall asleep:
  closing the queue wakes everybody for good.\<close>

definition drain_measure :: "'db world \<Rightarrow> nat" where
  "drain_measure w =
     (let q = sv_queue (w_server w); n = length (w_workers w)
      in 4 * length (ring_contents q) + sum_list (map wk_rank (w_workers w)) +
         (if q_closed q then n else 2 * n - length (q_not_empty q)) + ac_rank (w_acceptor w))"

lemma sleepers_few: "sleep_inv w \<Longrightarrow> length (q_not_empty (sv_queue (w_server w))) \<le> length (w_workers w)"
  using sleepers_bound(2) [of "q_not_empty (sv_queue (w_server w))" w] by (simp add: sleep_inv_def Let_def)

lemma worker_step_measure:
  assumes "fd_inv w" "sleep_inv w" "worker_step sq html ev w = Some w'" "own_move ev"
  shows "drain_measure w' < drain_measure w" "w_acceptor w' = w_acceptor w"
    "sv_stop_requested (w_server w') = sv_stop_requested (w_server w)"
proof -
  have r: "ring_inv (sv_queue (w_server w))" using assms(1) by (simp add: fd_inv_def)
  have "drain_measure w' < drain_measure w \<and> w_acceptor w' = w_acceptor w \<and>
      sv_stop_requested (w_server w') = sv_stop_requested (w_server w)"
    using assms(3)
  proof (cases rule: worker_step_cases)
    case (slept i q)
    note eff = pop_effect [OF r slept(3)]
    have "sleep_inv w'" by (rule worker_step_sleep [OF assms(1-3)])
    from sleepers_few [OF this] show ?thesis using slept(4) eff by (simp add: drain_measure_def Let_def)
  next
    case (woken i)
    then show ?thesis using assms(4) by simp
  next
    case (wait_over i q)
    from worker_at_split [OF wait_over(1)] obtain us vs where
      "w_workers w = us @ WkPop # vs" "\<And>k. (w_workers w)[i := k] = us @ k # vs" by blast
    then show ?thesis using wait_over(3) pop_effect [OF r wait_over(2)] by (simp add: drain_measure_def Let_def)
  next
    case (took i q fd)
    from worker_at_split [OF took(1)] obtain us vs where
      ws: "w_workers w = us @ WkPop # vs" "\<And>k. (w_workers w)[i := k] = us @ k # vs" by blast
    have "length (ring_contents (sv_queue (w_server w))) = Suc (length (ring_contents q))"
      using pop_effect(3) [OF r took(2), of fd] by simp
    then show ?thesis using took(3) ws pop_effect(2,6) [OF r took(2)] by (simp add: drain_measure_def Let_def)
  next
    case (served i fd now t m sv c)
    from worker_at_split [OF served(1)] obtain us vs where
      "w_workers w = us @ WkBusy fd # vs" "\<And>k. (w_workers w)[i := k] = us @ k # vs" by blast
    then show ?thesis using served(3) handle_client_frame [OF served(2)] by (simp add: drain_measure_def Let_def)
  next
    case (closed i fd)
    from worker_at_split [OF closed(1)] obtain us vs where
      "w_workers w = us @ WkServed fd # vs" "\<And>k. (w_workers w)[i := k] = us @ k # vs" by blast
    then show ?thesis using closed(2) by (simp add: drain_measure_def Let_def)
  next
    case (counted i)
    from worker_at_split [OF counted(1)] obtain us vs where
      "w_workers w = us @ WkCount # vs" "\<And>k. (w_workers w)[i := k] = us @ k # vs" by blast
    then show ?thesis using counted(2) by (simp add: drain_measure_def Let_def with_stats_def)
  qed
  then show "drain_measure w' < drain_measure w" "w_acceptor w' = w_acceptor w"
    "sv_stop_requested (w_server w') = sv_stop_requested (w_server w)" by blast+
qed

lemma acceptor_step_measure:
  assumes "fd_inv w" "sleep_inv w" "stopping w" "acceptor_step ev w = Some w'"
  shows "drain_measure w' < drain_measure w \<and> stopping w'"
proof (cases ev)
  case (EvPush chosen)
  then obtain fd where fd: "w_acceptor w = AcPush fd" using assms(4) by (auto split: acceptor.splits)
  obtain ok q where push: "queue_try_push chosen (sv_queue (w_server w)) fd = (ok, q)" by fastforce
  have r: "ring_inv (sv_queue (w_server w))" using assms(1) by (simp add: fd_inv_def)
  note eff = push_effect [OF r push]
  show ?thesis using assms(3,4) EvPush fd push eff sleepers_few [OF assms(2)]
    by (cases ok) (auto simp: stopping_def drain_measure_def Let_def with_stats_def length_cond_signal)
next
  case EvDrain
  then show ?thesis using assms(4) sleepers_few [OF assms(2)]
    by (auto simp: stopping_def drain_measure_def Let_def split: if_splits)
qed (use assms(3,4) in \<open>auto simp: stopping_def drain_measure_def Let_def with_stats_def count_defs split: if_splits\<close>)

lemma drain_step:
  assumes "fd_inv w" "sleep_inv w" "stopping w" "server_step sq html ev w = Some w'" "own_move ev"
  shows "drain_measure w' < drain_measure w \<and> stopping w'"
  using assms(4)
proof (cases rule: server_step_cases)
  case 1
  then show ?thesis by (rule acceptor_step_measure [OF assms(1-3)])
next
  case 2
  then show ?thesis using worker_step_measure [OF assms(1,2) 2 assms(5)] assms(3) by (simp add: stopping_def)
next
  case 3
  then show ?thesis using assms(5) by (cases ev) auto
qed

text \<open>The other events: another \<open>server_stop\<close> adds nothing to do, a wake-up one test
  of the condition.\<close>

lemma other_step:
  assumes "sleep_inv w" "stopping w" "server_step sq html ev w = Some w'" "\<not> own_move ev"
  shows "drain_measure w' \<le> drain_measure w + (if wake_up ev then 1 else 0) \<and> stopping w'"
  using assms(3)
proof (cases rule: server_step_cases)
  case 1
  then show ?thesis using assms(4) by (cases ev) auto
next
  case 2
  then obtain i where i: "ev = EvWake i" "i \<in> set (q_not_empty (sv_queue (w_server w)))"
    "w' = w\<lparr>w_server := (w_server w)\<lparr>sv_queue := wake_thread i (sv_queue (w_server w))\<rparr>\<rparr>"
    using assms(4) by (cases ev) (auto split: if_splits)
  then show ?thesis using assms(2) sleepers_few [OF assms(1)]
    by (auto simp: stopping_def drain_measure_def Let_def length_remove1)
next
  case 3
  then show ?thesis using assms(2) sleepers_few [OF assms(1)]
    by (cases ev) (auto simp: stopping_def drain_measure_def Let_def split: if_splits)
qed

text \<open>Along every run of a stopping server the own moves are paid for by the measure.\<close>

lemma drain_bound:
  "run_events sq html evs w = Some w' \<Longrightarrow> fd_inv w \<Longrightarrow> sleep_inv w \<Longrightarrow> stopping w \<Longrightarrow>
   length (filter own_move evs) + drain_measure w' \<le> drain_measure w + length (filter wake_up evs) \<and> stopping w'"
proof (induction evs arbitrary: w)
  case (Cons ev evs)
  then obtain w1 where w1: "server_step sq html ev w = Some w1" "run_events sq html evs w1 = Some w'"
    by (auto split: option.splits)
  note inv = server_step_fd [OF Cons.prems(2) w1(1)] server_step_sleep [OF Cons.prems(2,3) w1(1)]
  show ?case
  proof (cases "own_move ev")
    case True
    note d = drain_step [OF Cons.prems(2-4) w1(1) True]
    have "\<not> wake_up ev" using True by (cases ev) auto
    then show ?thesis using Cons.IH [OF w1(2) inv] d True by auto
  next
    case False
    note d = other_step [OF Cons.prems(3,4) w1(1) False]
    then show ?thesis using Cons.IH [OF w1(2) inv] False by auto
  qed
qed simp

text \<open>Some thread can always move.\<close>

lemma worker_moves:
  assumes "i < length (w_workers w)" "w_workers w ! i \<noteq> WkDone" "i \<notin> set (q_not_empty (sv_queue (w_server w)))"
  shows "\<exists>ev w'. worker_step sq html ev w = Some w' \<and> acceptor_step ev w = None \<and> own_move ev"
proof -
  have "\<exists>ev. worker_step sq html ev w \<noteq> None \<and> acceptor_step ev w = None \<and> own_move ev"
  proof (cases "w_workers w ! i")
    case WkPop
    then show ?thesis using assms
      by (intro exI [of _ "EvPop i"]) (auto simp: worker_at_def split: prod.splits pop_result.splits)
  next
    case (WkBusy fd)
    then show ?thesis using assms by (intro exI [of _ "EvServe i 0 True True"]) (auto simp: worker_at_def split: prod.splits)
  next
    case (WkServed fd)
    then show ?thesis using assms by (intro exI [of _ "EvClose i"]) (auto simp: worker_at_def)
  next
    case WkCount
    then show ?thesis using assms by (intro exI [of _ "EvCount i"]) (auto simp: worker_at_def)
  qed (use assms in auto)
  then show ?thesis by blast
qed

lemma worker_enabled:
  assumes "i < length (w_workers w)" "w_workers w ! i \<noteq> WkDone" "i \<notin> set (q_not_empty (sv_queue (w_server w)))"
  shows "\<exists>ev w'. server_step sq html ev w = Some w' \<and> own_move ev"
proof -
  obtain ev w' where ev: "worker_step sq html ev w = Some w'" "acceptor_step ev w = None" "own_move ev"
    using worker_moves [OF assms] by blast
  then have "server_step sq html ev w = Some w'" by (simp only: server_step_def option.case)
  then show ?thesis using ev(3) by blast
qed

lemma acceptor_enabled:
  assumes "w_acceptor w \<notin> {AcJoin, AcDone}"
  shows "\<exists>ev w'. server_step sq html ev w = Some w' \<and> own_move ev"
proof -
  have "\<exists>ev. acceptor_step ev w \<noteq> None \<and> own_move ev"
  proof (cases "w_acceptor w")
    case AcTop
    then show ?thesis by (intro exI [of _ EvTop]) simp
  next
    case AcPoll
    then show ?thesis by (intro exI [of _ EvPollTimeout]) simp
  next
    case AcAccept
    then show ?thesis by (intro exI [of _ EvAcceptFail]) simp
  next
    case (AcPush fd)
    then show ?thesis by (intro exI [of _ "EvPush 0"]) (simp split: prod.split bool.split)
  next
    case AcDrain
    then show ?thesis by (intro exI [of _ EvDrain]) simp
  qed (use assms in auto)
  then obtain ev w' where ev: "acceptor_step ev w = Some w'" "own_move ev" by blast
  then have "server_step sq html ev w = Some w'" by (simp only: server_step_def option.case)
  then show ?thesis using ev(2) by blast
qed

lemma drain_enabled:
  assumes "stop_inv w" "sleep_inv w" "w_acceptor w \<noteq> AcDone"
  shows "\<exists>ev w'. server_step sq html ev w = Some w' \<and> own_move ev"
proof (cases "w_acceptor w = AcJoin")
  case True
  then have nobody: "q_not_empty (sv_queue (w_server w)) = []"
    using assms(1,2) by (simp add: stop_inv_def sleep_inv_def Let_def)
  show ?thesis
  proof (cases "\<forall>k \<in> set (w_workers w). k = WkDone")
    case ended: True
    then obtain w' where "acceptor_step EvJoin w = Some w'" using True by (simp add: list_all_iff)
    then have "server_step sq html EvJoin w = Some w'" by (simp only: server_step_def option.case)
    then show ?thesis by (intro exI [of _ EvJoin] exI [of _ w']) simp
  next
    case False
    then obtain i where i: "i < length (w_workers w)" "w_workers w ! i \<noteq> WkDone" by (metis in_set_conv_nth)
    then show ?thesis using nobody by (intro worker_enabled [of i]) auto
  qed
next
  case False
  then show ?thesis using assms(3) by (intro acceptor_enabled) auto
qed

lemma server_drains:
  assumes "fd_inv w" "stop_inv w" "sleep_inv w" "stopping w"
  shows "\<exists>evs w'. run_events sq html evs w = Some w' \<and> list_all own_move evs \<and> w_acceptor w' = AcDone \<and>
    length evs \<le> drain_measure w"
  using assms
proof (induction "drain_measure w" arbitrary: w rule: less_induct)
  case less
  show ?case
  proof (cases "w_acceptor w = AcDone")
    case True
    then show ?thesis by (intro exI [of _ "[]"] exI [of _ w]) simp
  next
    case False
    obtain ev w1 where st: "server_step sq html ev w = Some w1" "own_move ev"
      using drain_enabled [OF less.prems(2,3) False] by blast
    note d = drain_step [OF less.prems(1,3,4) st]
    obtain evs w' where "run_events sq html evs w1 = Some w'" "list_all own_move evs" "w_acceptor w' = AcDone"
      "length evs \<le> drain_measure w1"
      using less.hyps [of w1] d server_step_fd [OF less.prems(1) st(1)] server_step_sleep [OF less.prems(1,3) st(1)]
        server_step_stop [OF less.prems(1,2) st(1)] by blast
    then show ?thesis using st d by (intro exI [of _ "ev # evs"] exI [of _ w']) auto
  qed
qed

text \<open>The size of the queue and a closed queue stay.\<close>

lemma server_step_queue:
  assumes "fd_inv w" "server_step sq html ev w = Some w'"
  shows "q_capacity (sv_queue (w_server w')) = q_capacity (sv_queue (w_server w)) \<and>
    (q_closed (sv_queue (w_server w)) \<longrightarrow> q_closed (sv_queue (w_server w')))"
proof -
  have r: "ring_inv (sv_queue (w_server w))" using assms(1) by (simp add: fd_inv_def)
  show ?thesis
    using assms(2)
  proof (cases rule: server_step_cases)
    case 1
    then show ?thesis
    proof (cases ev)
      case (EvPush chosen)
      obtain fd where fd: "w_acceptor w = AcPush fd" using 1 EvPush by (auto split: acceptor.splits)
      obtain ok q where push: "queue_try_push chosen (sv_queue (w_server w)) fd = (ok, q)" by fastforce
      show ?thesis using 1 EvPush fd push push_effect(3,6) [OF r push]
        by (cases ok) (auto simp: with_stats_def)
    qed (auto simp: with_stats_def split: if_splits)
  next
    case 2
    then show ?thesis
      by (cases rule: worker_step_cases)
        (auto simp: with_stats_def handle_client_frame dest: pop_effect(2,7) [OF r])
  next
    case 3
    then show ?thesis by (cases ev) (auto split: if_splits)
  qed
qed

lemma runs_capacity:
  "server_runs sq html w0 evs w \<Longrightarrow> fd_inv w0 \<Longrightarrow>
   fd_inv w \<and> q_capacity (sv_queue (w_server w)) = q_capacity (sv_queue (w_server w0))"
  by (induction rule: server_runs.induct) (auto dest: server_step_fd server_step_queue)

text \<open>On a closed queue nobody sleeps, so nobody wakes.\<close>

lemma closed_no_wake_up:
  "run_events sq html evs w = Some w' \<Longrightarrow> fd_inv w \<Longrightarrow> sleep_inv w \<Longrightarrow> q_closed (sv_queue (w_server w)) \<Longrightarrow>
   filter wake_up evs = []"
proof (induction evs arbitrary: w)
  case (Cons ev evs)
  then obtain w1 where w1: "server_step sq html ev w = Some w1" "run_events sq html evs w1 = Some w'"
    by (auto split: option.splits)
  have "q_not_empty (sv_queue (w_server w)) = []" using Cons.prems(3,4) by (simp add: sleep_inv_def Let_def)
  then have "\<not> wake_up ev" using w1(1) by (cases ev) (auto simp: server_step_def)
  then show ?case
    using Cons.IH [OF w1(2) server_step_fd [OF Cons.prems(2) w1(1)] server_step_sleep [OF Cons.prems(2,3) w1(1)]]
      server_step_queue [OF Cons.prems(2) w1(1)] Cons.prems(4) by simp
qed simp

lemma wk_rank_le: "wk_rank k \<le> 4"
  by (cases k) simp_all

lemma drain_measure_closed:
  assumes "fd_inv w" "q_closed (sv_queue (w_server w))"
  shows "drain_measure w \<le> 4 * q_capacity (sv_queue (w_server w)) + 5 * length (w_workers w) + 11"
proof -
  have "length (ring_contents (sv_queue (w_server w))) \<le> q_capacity (sv_queue (w_server w))"
    using assms(1) by (intro cq.within_limit) (simp add: fd_inv_def)
  moreover have "sum_list (map wk_rank ks) \<le> 4 * length ks" for ks
    using wk_rank_le by (induction ks) (auto simp: add_mono)
  from this [of "w_workers w"] have "sum_list (map wk_rank (w_workers w)) \<le> 4 * length (w_workers w)" .
  moreover have "ac_rank (w_acceptor w) \<le> 11" by (cases "w_acceptor w") simp_all
  ultimately show ?thesis using assms(2) by (simp add: drain_measure_def Let_def)
qed

declare length_ring_contents [simp]

text \<open>The answer to a connection: its bytes and status, and what it does to the counter of
  HTTP errors.\<close>

lemma error_status_range: "e \<noteq> API_OK \<Longrightarrow> 400 \<le> api_error_status e"
  by (cases e) simp_all

lemma handle_client_answers:
  assumes "cn_send c = []" "length html < 10 ^ 10" "handle_client sq html now True mem_ok sv c = (sv', c')"
  shows "\<exists>status bs. cn_out c' = cn_out c @ bs \<and> is_response status bs \<and>
    (\<forall>s x z. bs = x @ z \<longrightarrow> is_response s x \<longrightarrow> z = []) \<and>
    (case http_read_request mem_ok (Some HTTP_MAX_HEADERS_SIZE) (Some HTTP_MAX_BODY_SIZE) (cn_in c) of
       (Inl e, es) \<Rightarrow> status = api_error_status e
     | (Inr rq, es) \<Rightarrow>
         (let err = fst (api_dispatch sq html now (Some rq) (Some (with_stats count_request sv)) (c\<lparr>cn_in := es\<rparr>) (sv_store sv))
          in if err = API_OK then status \<in> {200, 201, 204} else status = api_error_status err)) \<and>
    ss_http_errors (sv_stats sv') = ss_http_errors (sv_stats sv) + (if 400 \<le> status then 1 else 0)"
proof -
  obtain r es where read: "http_read_request mem_ok (Some HTTP_MAX_HEADERS_SIZE) (Some HTTP_MAX_BODY_SIZE) (cn_in c) = (r, es)"
    by fastforce
  let ?c = "c\<lparr>cn_in := es\<rparr>"
  have c: "cn_send ?c = []" using assms(1) by simp
  show ?thesis
  proof (cases r)
    case (Inl e)
    have e: "e \<noteq> API_OK" using http_read_request_not_OK read Inl by blast
    have h: "c' = snd (http_respond_error e (Some (api_error_code e)) ?c)" "sv' = with_stats count_errors sv"
      using assms(3) read Inl by (auto simp: handle_client_def)
    let ?bs = "render_response (api_error_status e) ''application/json'' (error_json e (api_error_code e)) (error_allow e)"
    have r: "is_response (api_error_status e) ?bs" by (rule responded_is_response) (simp_all add: error_allow_def)
    have "\<forall>s x z. ?bs = x @ z \<longrightarrow> is_response s x \<longrightarrow> z = []"
      using r response_not_extended by metis
    then show ?thesis using read Inl h r error_status_range [OF e] http_respond_error_healthy [OF c e, of "api_error_code e"]
      by (intro exI [of _ "api_error_status e"] exI [of _ ?bs]) (simp add: count_errors_def with_stats_def stats_bump_def)
  next
    case (Inr rq)
    let ?sv = "with_stats count_request sv"
    obtain err c1 st1 where d: "api_dispatch sq html now (Some rq) (Some ?sv) ?c (sv_store ?sv) = (err, c1, st1)"
      using prod_cases3 by blast
    note one = one_response_bytes [OF api_dispatch_one [OF c assms(2), of sq now "Some rq" "Some ?sv" "sv_store ?sv", unfolded d]]
    have h: "c' = c1" "sv_stats sv' = (if err \<noteq> API_OK then count_http_error (count_request (sv_stats sv))
        else count_request (sv_stats sv))"
      using assms(3) read Inr d by (auto simp: handle_client_def Let_def with_stats_def)
    have "sv_store ?sv = sv_store sv" by (simp add: with_stats_def)
    then show ?thesis using one read Inr d h error_status_range [of err]
      by (fastforce simp: Let_def count_http_error_def count_request_def stats_bump_def)
  qed
qed

section \<open>Properties\<close>

text \<open>C2: descriptor safety over every interleaving.  In every state that
  \<open>server_run\<close> of a created server can reach, the open client descriptors are
  distinct and are exactly those queued, with a worker or with the acceptor; every
  accepted connection is either open or closed, and closed once.  So no descriptor
  leaks, none is closed twice and no two workers serve the same one.\<close>

theorem server_descriptors_safe:
  assumes "server_create sq env (Some cf) = Some sv"
    and "server_run_start lenv calloc_ok created (Some sv) = Inr w0"
    and "server_runs sq html w0 evs w"
  shows "distinct (w_open w) \<and>
    mset (w_open w) = mset (ring_contents (sv_queue (w_server w))) + mset (concat (map wk_fds (w_workers w))) +
      mset (ac_fds (w_acceptor w)) \<and>
    mset (w_accepted w) = mset (w_open w) + mset (w_closed w) \<and>
    length (ring_contents (sv_queue (w_server w))) \<le> q_capacity (sv_queue (w_server w))"
  using server_runs_from_create(1) [OF assms] cq.within_limit [of "sv_queue (w_server w)"]
  by (simp add: fd_inv_def held_def)

definition sample_env :: create_env where
  "sample_env = \<lparr>ce_calloc = True, ce_queue = (True, True, True, True), ce_store_calloc = True, ce_store_mutex = True,
     ce_now = 1000\<rparr>"

definition sample_listen :: listen_env where
  "sample_listen = \<lparr>le_socket = 3, le_reuse = True, le_inet_pton = True, le_bind = True, le_listen = True\<rparr>"

definition start_world :: "rdb world" where
  "start_world = (case server_run_start sample_listen True [] (server_create engine sample_env (Some sample_config)) of
     Inl _ \<Rightarrow> undefined | Inr w \<Rightarrow> w)"

definition health_conn :: conn where
  "health_conn = \<lparr>cn_in = [RecvData (''GET /health HTTP/1.1'' @ CRLF @ CRLF)], cn_send = [], cn_out = []\<rparr>"

text \<open>A run in which two workers fall asleep, the push wakes one of them to serve a
  connection, the other wakes for nothing, a second connection is dropped on the closed
  queue, and the server shuts down.\<close>

definition sample_events :: "event list" where
  "sample_events = [EvTop, EvPop 4, EvPop 2, EvPollReady, EvAccept 7 health_conn, EvPush 1, EvPop 2,
     EvServe 2 1005 True True, EvTop, EvWake 4, EvPop 4, EvPollReady, EvStopFlag, EvClose 2, EvAccept 7 health_conn,
     EvStopClose, EvPush 0, EvCount 2, EvTop, EvDrain,
     EvPop 0, EvPop 1, EvPop 2, EvPop 3, EvPop 4, EvPop 5, EvPop 6, EvPop 7, EvJoin]"

lemma start_world_created:
  "\<exists>sv. server_create engine sample_env (Some sample_config) = Some sv \<and>
     server_run_start sample_listen True [] (Some sv) = Inr start_world"
  by (simp add: server_create_def server_config_validate_def sample_config_def sample_env_def sample_listen_def
      queue_init_def store_open_def engine_def init_sqls_def exec_checked_def start_world_def server_run_start_def
      create_listener_def any_address_def)

lemma sample_run:
  "\<exists>w. server_runs engine [] start_world sample_events w \<and> w_acceptor w = AcDone \<and> w_closed w = [7, 7]"
proof -
  have "case run_events engine [] sample_events start_world of
      None \<Rightarrow> False | Some w \<Rightarrow> w_acceptor w = AcDone \<and> w_closed w = [7, 7]" by code_simp
  then show ?thesis using run_events_runs by (fastforce split: option.splits)
qed

theorem server_descriptors_safe_witness:
  "\<exists>w. w_acceptor w = AcDone \<and> mset (w_accepted w) = mset (w_open w) + mset (w_closed w) \<and> w_closed w = [7, 7] \<and>
     server_runs engine [] start_world sample_events w"
proof -
  obtain sv where sv: "server_create engine sample_env (Some sample_config) = Some sv"
    "server_run_start sample_listen True [] (Some sv) = Inr start_world" using start_world_created by blast
  obtain w where "server_runs engine [] start_world sample_events w" "w_acceptor w = AcDone" "w_closed w = [7, 7]"
    using sample_run by blast
  with server_descriptors_safe [OF sv] show ?thesis by blast
qed

lemma run_ends_clean:
  assumes "server_create sq env (Some cf) = Some sv"
    and "server_run_start lenv calloc_ok created (Some sv) = Inr w0"
    and "server_runs sq html w0 evs w" and "w_acceptor w = AcDone" and "w_workers w \<noteq> []"
  shows "w_open w = [] \<and> mset (w_accepted w) = mset (w_closed w) \<and> ring_contents (sv_queue (w_server w)) = [] \<and>
    ss_accepted (sv_stats (w_server w)) = ss_handled (sv_stats (w_server w)) + ss_dropped (sv_stats (w_server w))"
proof -
  note inv = server_runs_from_create [OF assms(1-3)]
  have d: "\<forall>k \<in> set (w_workers w). k = WkDone" using inv(3) assms(4) by (simp add: stop_inv_def)
  then have "drained w" using inv(3) assms(5) by (cases "w_workers w") (auto simp: stop_inv_def)
  then have q: "ring_contents (sv_queue (w_server w)) = []" by (simp add: drained_def)
  have nofd: "concat (map wk_fds (w_workers w)) = []" and nocount: "counting (w_workers w) = 0"
    using d by (auto simp: counting_def filter_empty_conv)
  have "mset (w_open w) = {#}" using inv(1) assms(4) q unfolding fd_inv_def held_def nofd by simp
  then have op: "w_open w = []" by simp
  have acc: "mset (w_accepted w) = mset (w_closed w)" using inv(1) op by (simp add: fd_inv_def)
  then have "length (w_accepted w) = length (w_closed w)" by (metis size_mset)
  then show ?thesis using inv(2) op q acc nocount by (simp add: count_inv_def Let_def add.commute)
qed

text \<open>C12: when \<open>server_run\<close> returns, every accepted connection was closed, nothing is
  left in the queue, all workers ended, and the counters agree: accepted connections are
  the handled plus the dropped ones (in 64-bit arithmetic).\<close>

theorem server_clean_shutdown:
  assumes "server_create sq env (Some cf) = Some sv"
    and "server_run_start lenv calloc_ok created (Some sv) = Inr w0"
    and "server_runs sq html w0 evs w" and "w_acceptor w = AcDone" and "w_workers w \<noteq> []"
  shows "w_open w = [] \<and> mset (w_accepted w) = mset (w_closed w) \<and> ring_contents (sv_queue (w_server w)) = [] \<and>
    ss_accepted (sv_stats (w_server w)) = ss_handled (sv_stats (w_server w)) + ss_dropped (sv_stats (w_server w))"
  by (rule run_ends_clean [OF assms])

lemma workers_length: "server_step sq html ev w = Some w' \<Longrightarrow> length (w_workers w') = length (w_workers w)"
proof (elim server_step_cases)
  show "acceptor_step ev w = Some w' \<Longrightarrow> length (w_workers w') = length (w_workers w)"
    by (cases ev) (auto split: if_splits acceptor.splits prod.splits bool.splits)
  show "worker_step sq html ev w = Some w' \<Longrightarrow> length (w_workers w') = length (w_workers w)"
    by (cases rule: worker_step_cases) auto
  show "stop_step ev w = Some w' \<Longrightarrow> length (w_workers w') = length (w_workers w)"
    by (cases ev) (auto split: if_splits)
qed

lemma runs_workers_length: "server_runs sq html w0 evs w \<Longrightarrow> length (w_workers w) = length (w_workers w0)"
  by (induction rule: server_runs.induct) (auto dest: workers_length)

lemma server_has_workers:
  assumes "server_create sq env (Some cf) = Some sv"
    and "server_run_start lenv calloc_ok created (Some sv) = Inr w0"
    and "server_runs sq html w0 evs w"
  shows "w_workers w \<noteq> []"
proof -
  have "1 \<le> cf_thread_count (sv_config sv)"
    using server_create_fresh(2,3) [OF assms(1)] by (simp add: server_config_validate_iff)
  then have "w_workers w0 \<noteq> []"
    using assms(2) by (auto simp: server_run_start_def Let_def split: prod.splits if_splits)
  then show ?thesis using runs_workers_length [OF assms(3)] by auto
qed

lemma awake_count:
  assumes "distinct xs" and "\<forall>i \<in> set xs. worker_at w i = Some WkPop"
  shows "card {i. worker_at w i = Some WkPop \<and> i \<notin> set xs} + length xs = popping (w_workers w)"
proof -
  let ?all = "{i. i < length (w_workers w) \<and> w_workers w ! i = WkPop}"
  have sub: "set xs \<subseteq> ?all" using assms(2) by (auto simp: worker_at_def split: if_splits)
  have "{i. worker_at w i = Some WkPop \<and> i \<notin> set xs} = ?all - set xs"
    by (auto simp: worker_at_def split: if_splits)
  then have "card {i. worker_at w i = Some WkPop \<and> i \<notin> set xs} = card ?all - card (set xs)"
    using sub by (simp add: card_Diff_subset)
  moreover have "card (set xs) \<le> card ?all" using sub by (intro card_mono) auto
  ultimately show ?thesis using assms(1) by (simp add: popping_card distinct_card)
qed

lemma queued_worker_moves:
  assumes "stop_inv w" "w_workers w \<noteq> []"
    and "q_not_empty (sv_queue (w_server w)) \<noteq> [] \<longrightarrow> q_count (sv_queue (w_server w)) \<le>
      card {i. worker_at w i = Some WkPop \<and> i \<notin> set (q_not_empty (sv_queue (w_server w)))}"
  shows "0 < q_count (sv_queue (w_server w)) \<longrightarrow> (\<exists>ev w'. worker_step sq html ev w = Some w' \<and> own_move ev)"
proof
  let ?q = "sv_queue (w_server w)"
  assume pos: "0 < q_count ?q"
  then have "ring_contents ?q \<noteq> []" by (auto simp: ring_contents_def)
  then have nd: "WkDone \<notin> set (w_workers w)" using assms(1) by (auto simp: stop_inv_def drained_def)
  have "\<exists>i < length (w_workers w). i \<notin> set (q_not_empty ?q)"
  proof (cases "q_not_empty ?q = []")
    case True
    then show ?thesis using assms(2) by (intro exI [of _ 0]) simp
  next
    case False
    then have "{i. worker_at w i = Some WkPop \<and> i \<notin> set (q_not_empty ?q)} \<noteq> {}"
      using assms(3) pos by (metis card.empty le_zero_eq less_numeral_extra(3))
    then show ?thesis by (auto simp: worker_at_def split: if_splits)
  qed
  then obtain i where i: "i < length (w_workers w)" "i \<notin> set (q_not_empty ?q)" by blast
  moreover have "w_workers w ! i \<noteq> WkDone" using nd i(1) by (metis nth_mem)
  ultimately show "\<exists>ev w'. worker_step sq html ev w = Some w' \<and> own_move ev"
    using worker_moves [of i w] by blast
qed

lemma start_world_workers: "length (w_workers start_world) = 8"
  by code_simp

theorem server_clean_shutdown_witness:
  "\<exists>w. server_runs engine [] start_world sample_events w \<and> w_open w = [] \<and>
     mset (w_accepted w) = mset (w_closed w) \<and> ring_contents (sv_queue (w_server w)) = [] \<and>
     ss_accepted (sv_stats (w_server w)) = ss_handled (sv_stats (w_server w)) + ss_dropped (sv_stats (w_server w))"
proof -
  obtain sv where sv: "server_create engine sample_env (Some sample_config) = Some sv"
    "server_run_start sample_listen True [] (Some sv) = Inr start_world" using start_world_created by blast
  obtain w where w: "server_runs engine [] start_world sample_events w" "w_acceptor w = AcDone"
    using sample_run by blast
  have "w_workers w \<noteq> []" using runs_workers_length [OF w(1)] start_world_workers by auto
  from server_clean_shutdown [OF sv w this] w(1) show ?thesis by blast
qed

text \<open>C3: a stopping server always returns.  Take any state that a run can reach in which
  the stop flag is set or the acceptor has left its loop, with workers asleep on the
  condition variable or not.  Unless \<open>server_run\<close> has returned, some thread can move:
  there is no deadlock, and nobody is left asleep when the acceptor joins the workers.
  Every move of a thread brings the end nearer.  Along every run from there, with further
  calls of \<open>server_stop\<close> and wake-ups without a signal interleaved at will, the threads
  make at most \<open>drain_measure\<close> moves and one more for each such wake-up.  And the end
  can be reached by moves of the threads alone.\<close>

theorem server_drain_terminates:
  assumes "server_create sq env (Some cf) = Some sv"
    and "server_run_start lenv calloc_ok created (Some sv) = Inr w0"
    and "server_runs sq html w0 evs w"
    and "sv_stop_requested (w_server w) \<or> w_acceptor w \<in> {AcDrain, AcJoin, AcDone}"
  shows "(w_acceptor w \<noteq> AcDone \<longrightarrow> (\<exists>ev w'. server_step sq html ev w = Some w' \<and> own_move ev)) \<and>
    (\<forall>ev w'. server_step sq html ev w = Some w' \<longrightarrow> own_move ev \<longrightarrow> drain_measure w' < drain_measure w) \<and>
    (\<forall>evs' w'. run_events sq html evs' w = Some w' \<longrightarrow>
       length (filter own_move evs') + drain_measure w' \<le> drain_measure w + length (filter wake_up evs')) \<and>
    (\<exists>evs' w'. run_events sq html evs' w = Some w' \<and> list_all own_move evs' \<and> w_acceptor w' = AcDone \<and>
       length evs' \<le> drain_measure w)"
proof (intro conjI allI impI)
  note inv = server_runs_from_create [OF assms(1-3)]
  have stopping: "stopping w" using assms(4) by (auto simp: stopping_def)
  show "\<exists>ev w'. server_step sq html ev w = Some w' \<and> own_move ev" if "w_acceptor w \<noteq> AcDone"
    by (rule drain_enabled [OF inv(3,4) that])
  show "drain_measure w' < drain_measure w" if "server_step sq html ev w = Some w'" "own_move ev" for ev w'
    using drain_step [OF inv(1,4) stopping that] by blast
  show "length (filter own_move evs') + drain_measure w' \<le> drain_measure w + length (filter wake_up evs')"
    if "run_events sq html evs' w = Some w'" for evs' w'
    using drain_bound [OF that inv(1,4) stopping] by blast
  show "\<exists>evs' w'. run_events sq html evs' w = Some w' \<and> list_all own_move evs' \<and> w_acceptor w' = AcDone \<and>
      length evs' \<le> drain_measure w"
    by (rule server_drains [OF inv(1,3,4) stopping])
qed

text \<open>A server stopped while two of its workers are asleep.\<close>

definition stopped_events :: "event list" where
  "stopped_events = [EvPop 3, EvTop, EvPop 5, EvStopFlag]"

theorem server_drain_terminates_witness:
  "\<exists>w. server_runs engine [] start_world stopped_events w \<and> q_not_empty (sv_queue (w_server w)) = [3, 5] \<and>
     (\<exists>evs' w'. run_events engine [] evs' w = Some w' \<and> list_all own_move evs' \<and> w_acceptor w' = AcDone \<and>
        length evs' \<le> drain_measure w)"
proof -
  obtain sv where sv: "server_create engine sample_env (Some sample_config) = Some sv"
    "server_run_start sample_listen True [] (Some sv) = Inr start_world" using start_world_created by blast
  have "case run_events engine [] stopped_events start_world of
      None \<Rightarrow> False | Some w \<Rightarrow> sv_stop_requested (w_server w) \<and> q_not_empty (sv_queue (w_server w)) = [3, 5]" by code_simp
  then obtain w where w: "server_runs engine [] start_world stopped_events w" "sv_stop_requested (w_server w)"
      "q_not_empty (sv_queue (w_server w)) = [3, 5]"
    using run_events_runs [of engine "[]" stopped_events start_world] by (auto split: option.splits)
  from server_drain_terminates [OF sv w(1) disjI1 [OF w(2)]] w(1,3) show ?thesis by blast
qed

text \<open>C30: no wake-up is lost.  In every state that a run can reach, the workers asleep on the
  condition variable of the queue are distinct workers at their pop, nobody is asleep on a
  closed queue, and while a worker is asleep there is, for each queued connection, another
  worker at its pop that is awake; so as long as a connection is queued, some worker can
  move, even though each push wakes one worker only.\<close>

theorem server_no_lost_wakeup:
  assumes "server_create sq env (Some cf) = Some sv"
    and "server_run_start lenv calloc_ok created (Some sv) = Inr w0"
    and "server_runs sq html w0 evs w"
  shows "distinct (q_not_empty (sv_queue (w_server w))) \<and>
    (\<forall>i \<in> set (q_not_empty (sv_queue (w_server w))). worker_at w i = Some WkPop) \<and>
    (q_closed (sv_queue (w_server w)) \<longrightarrow> q_not_empty (sv_queue (w_server w)) = []) \<and>
    (q_not_empty (sv_queue (w_server w)) \<noteq> [] \<longrightarrow>
       q_count (sv_queue (w_server w)) \<le>
         card {i. worker_at w i = Some WkPop \<and> i \<notin> set (q_not_empty (sv_queue (w_server w)))}) \<and>
    (0 < q_count (sv_queue (w_server w)) \<longrightarrow>
       (\<exists>ev w'. worker_step sq html ev w = Some w' \<and> own_move ev))"
proof (intro conjI)
  note inv = server_runs_from_create [OF assms]
  let ?q = "sv_queue (w_server w)"
  let ?awake = "{i. worker_at w i = Some WkPop \<and> i \<notin> set (q_not_empty ?q)}"
  show s: "distinct (q_not_empty ?q)" "\<forall>i \<in> set (q_not_empty ?q). worker_at w i = Some WkPop"
    "q_closed ?q \<longrightarrow> q_not_empty ?q = []"
    using inv(4) by (simp_all add: sleep_inv_def Let_def)
  have count: "card ?awake + length (q_not_empty ?q) = popping (w_workers w)"
    by (rule awake_count [OF s(1,2)])
  show awake: "q_not_empty ?q \<noteq> [] \<longrightarrow> q_count ?q \<le> card ?awake"
    using inv(4) count by (auto simp: sleep_inv_def Let_def)
  show "0 < q_count ?q \<longrightarrow> (\<exists>ev w'. worker_step sq html ev w = Some w' \<and> own_move ev)"
    by (rule queued_worker_moves [OF inv(3) server_has_workers [OF assms] awake])
qed

theorem server_no_lost_wakeup_witness:
  "\<exists>w. server_runs engine [] start_world [EvPop 3, EvTop, EvPop 5, EvPollReady, EvAccept 7 health_conn, EvPush 1] w \<and>
     q_not_empty (sv_queue (w_server w)) = [3] \<and>
     1 \<le> card {i. worker_at w i = Some WkPop \<and> i \<notin> set (q_not_empty (sv_queue (w_server w)))}"
proof -
  let ?evs = "[EvPop 3, EvTop, EvPop 5, EvPollReady, EvAccept 7 health_conn, EvPush 1]"
  obtain sv where sv: "server_create engine sample_env (Some sample_config) = Some sv"
    "server_run_start sample_listen True [] (Some sv) = Inr start_world" using start_world_created by blast
  have "case run_events engine [] ?evs start_world of
      None \<Rightarrow> False | Some w \<Rightarrow> q_count (sv_queue (w_server w)) = 1 \<and> q_not_empty (sv_queue (w_server w)) = [3]" by code_simp
  then obtain w where w: "server_runs engine [] start_world ?evs w" "q_count (sv_queue (w_server w)) = 1"
      "q_not_empty (sv_queue (w_server w)) = [3]"
    using run_events_runs [of engine "[]" ?evs start_world] by (auto split: option.splits)
  have "1 \<le> card {i. worker_at w i = Some WkPop \<and> i \<notin> set (q_not_empty (sv_queue (w_server w)))}"
    using server_no_lost_wakeup [OF sv w(1)] w(2,3) by simp
  with w(1,3) show ?thesis by blast
qed

text \<open>C33: every connection whose socket works gets exactly one complete response from
  \<open>handle_client\<close>: the bytes sent are one complete response and no shorter part of
  them is.  Its status is that of the error if the request could not be read, and otherwise
  the one that agrees with the result of \<open>api_dispatch\<close>; and the counter of HTTP
  errors grows by one exactly if that status is 400 or more.\<close>

theorem handle_client_one_response:
  assumes "cn_send c = []" and "length html < 10 ^ 10" and "handle_client sq html now True mem_ok sv c = (sv', c')"
  shows "\<exists>status bs. cn_out c' = cn_out c @ bs \<and> is_response status bs \<and>
    (\<forall>s x z. bs = x @ z \<longrightarrow> is_response s x \<longrightarrow> z = []) \<and>
    (case http_read_request mem_ok (Some HTTP_MAX_HEADERS_SIZE) (Some HTTP_MAX_BODY_SIZE) (cn_in c) of
       (Inl e, es) \<Rightarrow> status = api_error_status e
     | (Inr rq, es) \<Rightarrow>
         (let err = fst (api_dispatch sq html now (Some rq) (Some (with_stats count_request sv)) (c\<lparr>cn_in := es\<rparr>) (sv_store sv))
          in if err = API_OK then status \<in> {200, 201, 204} else status = api_error_status err)) \<and>
    ss_http_errors (sv_stats sv') = ss_http_errors (sv_stats sv) + (if 400 \<le> status then 1 else 0)"
  by (rule handle_client_answers [OF assms])

definition broken_conn :: conn where
  "broken_conn = \<lparr>cn_in = [RecvData ''GET /hea''], cn_send = [], cn_out = []\<rparr>"

theorem handle_client_one_response_witness:
  "\<exists>bs. cn_out (snd (handle_client engine [] 1005 True True (sample_server (Some empty_rdb)) broken_conn)) = bs \<and>
     is_response 400 bs \<and>
     ss_http_errors (sv_stats (fst (handle_client engine [] 1005 True True (sample_server (Some empty_rdb)) broken_conn))) = 1"
proof -
  let ?h = "handle_client engine [] 1005 True True (sample_server (Some empty_rdb)) broken_conn"
  have "case http_read_request True (Some HTTP_MAX_HEADERS_SIZE) (Some HTTP_MAX_BODY_SIZE) (cn_in broken_conn) of
      (Inl e, es) \<Rightarrow> e = API_ERR_BAD_REQUEST | _ \<Rightarrow> False" by code_simp
  then obtain es where "http_read_request True (Some HTTP_MAX_HEADERS_SIZE) (Some HTTP_MAX_BODY_SIZE) (cn_in broken_conn) =
      (Inl API_ERR_BAD_REQUEST, es)" by (auto split: prod.splits sum.splits)
  moreover have "ss_http_errors (sv_stats (sample_server (Some empty_rdb))) = 0" by (simp add: sample_server_def zero_stats_def)
  ultimately show ?thesis
    using handle_client_one_response [of broken_conn "[]" engine 1005 True "sample_server (Some empty_rdb)" "fst ?h" "snd ?h"]
    by (auto simp: broken_conn_def)
qed

end
