(* ===== verification/Main_Run.thy ===== *)
theory Main_Run
  imports Main_Cli Console_Props Log Server_Laws
begin

text \<open>
  \<open>main\<close> as a whole: configuration, directories, server object, screens, the run of
  the server, shutdown.  The outcomes of the system calls are the record \<open>proc_env\<close>; the
  interleaving of the threads and the signals is the list of events of the run, in which the
  signal handler is the pair of events of \<open>server_stop\<close>, delivered while its thread is
  outside the critical sections of the queue.  The log lines that \<open>server.c\<close> writes
  in between are left out.
\<close>

section \<open>The program\<close>

record proc_env =
  pe_tty :: tty_env
  pe_inet_pton :: "cstr \<Rightarrow> bool"
  pe_strerror :: cstr
  pe_create :: create_env
  pe_listen :: listen_env
  pe_calloc :: bool
  pe_created :: "bool list"
  pe_clock :: "(nat \<times> nat \<times> nat) option"

text \<open>How the process ends: exit code, what \<open>main\<close> wrote, and the database that the
  server closed.\<close>

record 'db main_end =
  mn_exit :: int
  mn_out :: cstr
  mn_err :: cstr
  mn_db :: "'db option"

definition main_console_info :: "ServerConfig \<Rightarrow> ConsoleInfo" where
  "main_console_info config =
     (let bind_ip = the (cf_bind_ip config)
      in \<lparr>ci_bind_ip = Some bind_ip, ci_link_host = (if bind_ip = ''0.0.0.0'' then ''127.0.0.1'' else bind_ip),
          ci_db_path = cf_db_path config, ci_version = Some SERVER_VERSION, ci_port = cf_port config,
          ci_workers = cf_thread_count config,
          ci_auth_protected = (case cf_api_key config of None \<Rightarrow> False | Some k \<Rightarrow> k \<noteq> [])\<rparr>)"

definition main_startup :: "ServerConfig \<Rightarrow> cstr" where
  "main_startup config =
     snprintf_buf 256 (''bind='' @ the (cf_bind_ip config) @ '' port='' @ show_nat (unat (cf_port config)) @
       '' workers='' @ show_int (cf_thread_count config) @ '' db='' @ the (cf_db_path config))"

text \<open>The end of \<open>main\<close> after \<open>server_run\<close>.\<close>

definition main_finish :: "'db sqlite3 \<Rightarrow> tty_env \<Rightarrow> bool \<Rightarrow> int \<Rightarrow> cstr \<Rightarrow> 'db Server option \<Rightarrow> console \<Rightarrow> 'db main_end option" where
  "main_finish sq te signalled run_result err server st =
     do {
       st' \<leftarrow> (if signalled then console_print_shutdown te st else Some st);
       Some \<lparr>mn_exit = main_exit run_result, mn_out = cs_out st', mn_err = err,
             mn_db = (case server_destroy sq server of None \<Rightarrow> None | Some (db, _) \<Rightarrow> db)\<rparr>
     }"

text \<open>\<open>main\<close> under the schedule \<open>evs\<close>: \<open>None\<close> if the schedule is not a run of
  the server up to its return.\<close>

definition main_run ::
  "'db sqlite3 \<Rightarrow> bytes \<Rightarrow> proc_env \<Rightarrow> (cstr \<Rightarrow> 'fs \<Rightarrow> mkdir_result \<times> 'fs) \<Rightarrow> event list \<Rightarrow> cstr list \<Rightarrow> 'fs \<Rightarrow>
   'db main_end option" where
  "main_run sq html env mkdir evs argv fs =
     (case main_start sq (pe_create env) (te_getenv (pe_tty env)) (pe_inet_pton env) mkdir (pe_strerror env) argv fs of
        (Inl (code, text), _) \<Rightarrow> Some \<lparr>mn_exit = code, mn_out = [], mn_err = text, mn_db = None\<rparr>
      | (Inr server, _) \<Rightarrow>
          do {
            st1 \<leftarrow> console_print_boot (pe_tty env) console_start;
            st2 \<leftarrow> console_print_banner (pe_tty env) (Some (main_console_info (sv_config server))) st1;
            let err = LOG_INFO_D (pe_clock env) ''main'' ''core online'' (main_startup (sv_config server));
            (case server_run_start (pe_listen env) (pe_calloc env) (pe_created env) (Some server) of
               Inl server' \<Rightarrow> main_finish sq (pe_tty env) False (-1) err server' st2
             | Inr w0 \<Rightarrow>
                 do {
                   w \<leftarrow> run_events sq html evs w0;
                   if w_acceptor w = AcDone
                   then main_finish sq (pe_tty env) (EvStopFlag \<in> set evs) 0 err (Some (w_server w)) st2
                   else None
                 })
          })"

section \<open>Stopping the server\<close>

lemma run_events_append:
  "run_events sq html (evs @ evs') w = Option.bind (run_events sq html evs w) (run_events sq html evs')"
  by (induction evs arbitrary: w) (auto split: option.splits)

lemma info_ok_main: "info_ok (main_console_info config)"
  by (simp add: info_ok_def main_console_info_def or_mark_def SERVER_VERSION_def printable_def Let_def)

text \<open>The server that \<open>main\<close> runs comes from \<open>server_create\<close>.\<close>

lemma main_start_created:
  assumes "main_start sq cenv getenv inet_pton mkdir strerror argv fs = (Inr server, fs')"
  shows "server_create sq cenv (Some (sv_config server)) = Some server"
  using assms server_create_fresh(2)
  by (auto simp: main_start_def split: sum.splits prod.splits if_splits option.splits)

text \<open>After the signal: the flag is set, the queue closed, and the moves that are left are
  bounded by the size of the queue and the number of workers.\<close>

lemma stop_signal_events:
  assumes "run_events sq html ([EvStopFlag, EvStopClose] @ evs) w = Some w'"
  obtains w1 where "run_events sq html [EvStopFlag, EvStopClose] w = Some w1" "run_events sq html evs w1 = Some w'"
    "sv_stop_requested (w_server w1)" "q_closed (sv_queue (w_server w1))"
  using assms by (auto simp: server_step_def)

lemma server_run_start_sizes:
  assumes "server_create sq cenv (Some cf) = Some sv" "server_run_start lenv calloc_ok created (Some sv) = Inr w0"
  shows "q_capacity (sv_queue (w_server w0)) = nat (cf_queue_size cf)" "length (w_workers w0) = nat (cf_thread_count cf)"
proof -
  have "q_capacity (sv_queue sv) = nat (cf_queue_size cf)"
    using assms(1) by (auto simp: server_create_def Let_def split: if_splits prod.splits option.splits sum.splits
        dest: queue_init_inv)
  then show "q_capacity (sv_queue (w_server w0)) = nat (cf_queue_size cf)" "length (w_workers w0) = nat (cf_thread_count cf)"
    using assms(2) server_create_fresh(2) [OF assms(1)]
    by (auto simp: server_run_start_def Let_def split: prod.splits if_splits)
qed

lemma signalled_run_bounded:
  assumes "server_create sq cenv (Some cf) = Some sv" "server_run_start lenv calloc_ok created (Some sv) = Inr w0"
    and "run_events sq html (evs @ [EvStopFlag, EvStopClose] @ evs') w0 = Some w"
  shows "length (filter own_move evs') \<le> 4 * nat (cf_queue_size cf) + 5 * nat (cf_thread_count cf) + 11" "stopping w"
proof -
  obtain wa where a: "run_events sq html evs w0 = Some wa" "run_events sq html ([EvStopFlag, EvStopClose] @ evs') wa = Some w"
    using assms(3) by (auto simp only: run_events_append bind_eq_Some_conv)
  obtain w1 where 1: "run_events sq html [EvStopFlag, EvStopClose] wa = Some w1" "run_events sq html evs' w1 = Some w"
    "sv_stop_requested (w_server w1)" "q_closed (sv_queue (w_server w1))"
    using stop_signal_events [OF a(2)] by blast
  have r1: "run_events sq html (evs @ [EvStopFlag, EvStopClose]) w0 = Some w1"
    using a(1) 1(1) by (simp only: run_events_append Option.bind.simps)
  note runs = run_events_runs [OF r1]
  note inv = server_runs_from_create [OF assms(1,2) runs]
  have st: "stopping w1" using 1(3) by (simp add: stopping_def)
  note bound = drain_bound [OF 1(2) inv(1,4) st] and quiet = closed_no_wake_up [OF 1(2) inv(1,4) 1(4)]
  have start: "fd_inv w0" by (rule server_runs_from_create(1) [OF assms(1,2) runs_start])
  have "drain_measure w1 \<le> 4 * nat (cf_queue_size cf) + 5 * nat (cf_thread_count cf) + 11"
    using drain_measure_closed [OF inv(1) 1(4)] runs_capacity [OF runs start] runs_workers_length [OF runs]
      server_run_start_sizes [OF assms(1,2)] by simp
  then show "length (filter own_move evs') \<le> 4 * nat (cf_queue_size cf) + 5 * nat (cf_thread_count cf) + 11"
    using bound quiet by simp
  show "stopping w" using bound by blast
qed

text \<open>What \<open>main\<close> returns and prints after a run with a signal.\<close>

definition session_text :: "tty_env \<Rightarrow> ConsoleInfo \<Rightarrow> cstr" where
  "session_text te info =
     (if \<not> console_is_tty te \<or> env_flag_set te ''CONSOLE_NO_ANIMATION'' \<or> env_flag_set te ''CI'' then []
      else concat (boot_text te)) @
     banner_text te info @ (if console_is_tty te then concat (shutdown_text te) else [])"

lemma main_run_returns:
  assumes "order_ok (pe_tty env)"
    and "main_start sq (pe_create env) (te_getenv (pe_tty env)) (pe_inet_pton env) mkdir (pe_strerror env) argv fs = (Inr server, fs')"
    and "server_run_start (pe_listen env) (pe_calloc env) (pe_created env) (Some server) = Inr w0"
    and "run_events sq html evs w0 = Some w" and "w_acceptor w = AcDone" and "EvStopFlag \<in> set evs"
  shows "\<exists>e. main_run sq html env mkdir evs argv fs = Some e \<and> mn_exit e = 0 \<and>
    mn_out e = session_text (pe_tty env) (main_console_info (sv_config server))"
proof -
  let ?te = "pe_tty env" and ?info = "main_console_info (sv_config server)"
  have ok: "console_ok ?te console_start" by (rule samples_ok)
  obtain st1 where 1: "console_print_boot ?te console_start = Some st1" "console_ok ?te st1"
      "cs_out st1 = (if \<not> console_is_tty ?te \<or> env_flag_set ?te ''CONSOLE_NO_ANIMATION'' \<or> env_flag_set ?te ''CI''
         then [] else concat (boot_text ?te))"
    using boot_prints [OF ok] by (auto simp: console_start_def)
  obtain st2 where 2: "console_print_banner ?te (Some ?info) st1 = Some st2" "console_ok ?te st2"
      "cs_out st2 = cs_out st1 @ banner_text ?te ?info"
    using prints_banner [OF assms(1) info_ok_main] 1(2) by (rule printsE)
  obtain st3 where 3: "console_print_shutdown ?te st2 = Some st3"
      "cs_out st3 = cs_out st2 @ (if console_is_tty ?te then concat (shutdown_text ?te) else [])"
    using shutdown_prints [OF assms(1) 2(2)] by blast
  obtain e where "main_run sq html env mkdir evs argv fs = Some e" "mn_exit e = 0" "mn_out e = cs_out st3"
    unfolding main_run_def assms(2) prod.case sum.case assms(3,4) 1(1) 2(1) Option.bind.simps Let_def
    by (simp add: assms(5,6) main_finish_def 3(1) main_exit_def)
  then show ?thesis using 1(3) 2(3) 3(2) by (simp add: session_text_def)
qed

section \<open>Properties of the program\<close>

text \<open>C4: a signal stops the program under every schedule.  Take any run of a started server,
  a signal at any point of it (\<open>server_stop\<close>, called on a thread that is not itself
  inside a critical section of the queue), and any continuation, with any outcomes of the system calls
  and further signals interleaved.  The threads make at most a fixed number of moves after
  the signal, given by the size of the queue and the number of workers: the acceptor leaves
  its loop and every worker ends.  As long as \<open>server_run\<close> has not returned, some thread
  can move and the return can be reached.  And whenever it returns, \<open>main\<close> ends with
  exit code 0, has printed the boot sequence, the banner and the shutdown list on
  \<open>stdout\<close>, every accepted connection was closed and the queue is empty.\<close>

theorem main_stops_after_signal:
  assumes "order_ok (pe_tty env)"
    and "main_start sq (pe_create env) (te_getenv (pe_tty env)) (pe_inet_pton env) mkdir (pe_strerror env) argv fs = (Inr server, fs')"
    and "server_run_start (pe_listen env) (pe_calloc env) (pe_created env) (Some server) = Inr w0"
    and "run_events sq html (evs @ [EvStopFlag, EvStopClose] @ evs') w0 = Some w"
  shows "length (filter own_move evs') \<le>
      4 * nat (cf_queue_size (sv_config server)) + 5 * nat (cf_thread_count (sv_config server)) + 11 \<and>
    (w_acceptor w \<noteq> AcDone \<longrightarrow> (\<exists>ev w'. server_step sq html ev w = Some w' \<and> own_move ev)) \<and>
    (\<exists>evs'' w'. run_events sq html evs'' w = Some w' \<and> list_all own_move evs'' \<and> w_acceptor w' = AcDone) \<and>
    (w_acceptor w = AcDone \<longrightarrow>
       (\<exists>e. main_run sq html env mkdir (evs @ [EvStopFlag, EvStopClose] @ evs') argv fs = Some e \<and> mn_exit e = 0 \<and>
          mn_out e = session_text (pe_tty env) (main_console_info (sv_config server)) \<and>
          w_open w = [] \<and> mset (w_accepted w) = mset (w_closed w) \<and> ring_contents (sv_queue (w_server w)) = []))"
proof (intro conjI impI)
  note created = main_start_created [OF assms(2)]
  note runs = run_events_runs [OF assms(4)]
  note inv = server_runs_from_create [OF created assms(3) runs]
  note bounded = signalled_run_bounded [OF created assms(3,4)]
  show "length (filter own_move evs') \<le>
      4 * nat (cf_queue_size (sv_config server)) + 5 * nat (cf_thread_count (sv_config server)) + 11"
    by (rule bounded(1))
  show "\<exists>ev w'. server_step sq html ev w = Some w' \<and> own_move ev" if "w_acceptor w \<noteq> AcDone"
    by (rule drain_enabled [OF inv(3,4) that])
  show "\<exists>evs'' w'. run_events sq html evs'' w = Some w' \<and> list_all own_move evs'' \<and> w_acceptor w' = AcDone"
    using server_drains [OF inv(1,3,4) bounded(2)] by blast
  assume ended: "w_acceptor w = AcDone"
  note clean = run_ends_clean [OF created assms(3) runs ended server_has_workers [OF created assms(3) runs]]
  obtain e where "main_run sq html env mkdir (evs @ [EvStopFlag, EvStopClose] @ evs') argv fs = Some e" "mn_exit e = 0"
      "mn_out e = session_text (pe_tty env) (main_console_info (sv_config server))"
    using main_run_returns [OF assms ended] by auto
  then show "\<exists>e. main_run sq html env mkdir (evs @ [EvStopFlag, EvStopClose] @ evs') argv fs = Some e \<and> mn_exit e = 0 \<and>
      mn_out e = session_text (pe_tty env) (main_console_info (sv_config server)) \<and>
      w_open w = [] \<and> mset (w_accepted w) = mset (w_closed w) \<and> ring_contents (sv_queue (w_server w)) = []"
    using clean by blast
qed

definition sample_proc :: proc_env where
  "sample_proc = \<lparr>pe_tty = sample_tty, pe_inet_pton = (\<lambda>ip. ip = ''0.0.0.0''), pe_strerror = ''Success'', pe_create = sample_env,
     pe_listen = sample_listen, pe_calloc = True, pe_created = [], pe_clock = Some (4, 53, 17)\<rparr>"

text \<open>A worker is asleep and a connection accepted but not yet queued when the signal comes; the
  run goes on to the end.\<close>

definition signal_prefix :: "event list" where
  "signal_prefix = [EvPop 1, EvTop, EvPollReady, EvAccept 7 health_conn]"

definition signal_suffix :: "event list" where
  "signal_suffix = [EvPop 0, EvPush 0, EvPop 1, EvTop, EvDrain, EvJoin]"

theorem main_stops_after_signal_witness:
  "\<exists>e. main_run engine [] sample_proc list_mkdir (signal_prefix @ [EvStopFlag, EvStopClose] @ signal_suffix)
     [''server'', ''--threads'', ''2''] [] = Some e \<and> mn_exit e = 0"
proof -
  let ?run = "main_start engine (pe_create sample_proc) (te_getenv (pe_tty sample_proc)) (pe_inet_pton sample_proc) list_mkdir
     (pe_strerror sample_proc) [''server'', ''--threads'', ''2''] []"
  let ?evs = "signal_prefix @ [EvStopFlag, EvStopClose] @ signal_suffix"
  have "case ?run of (Inl _, _) \<Rightarrow> False | (Inr server, _) \<Rightarrow>
     (case server_run_start (pe_listen sample_proc) (pe_calloc sample_proc) (pe_created sample_proc) (Some server) of
        Inl _ \<Rightarrow> False
      | Inr w0 \<Rightarrow> (case run_events engine [] ?evs w0 of None \<Rightarrow> False | Some w \<Rightarrow> w_acceptor w = AcDone))"
    by code_simp
  then obtain server fs' w0 w where *: "?run = (Inr server, fs')"
      "server_run_start (pe_listen sample_proc) (pe_calloc sample_proc) (pe_created sample_proc) (Some server) = Inr w0"
      "run_events engine [] ?evs w0 = Some w" "w_acceptor w = AcDone"
    by (auto split: prod.splits sum.splits option.splits)
  have "order_ok (pe_tty sample_proc)" using samples_ok(1) by (simp add: sample_proc_def)
  from main_stops_after_signal [OF this *(1,2,3)] *(4) show ?thesis by auto
qed

end
